theory Spec2Isabelle
  imports Main
begin

section \<open>The pub/sub RPC client of \<^verbatim>\<open>pubsub/event_rpc_client.py\<close>\<close>

text \<open>
  The module defines the decorator \<^verbatim>\<open>apply_retry\<close> and the class \<^verbatim>\<open>EventRpcClient\<close>.
  The client is an object with mutable fields, one of which (\<^verbatim>\<open>_topics\<close>) holds a
  \<^emph>\<open>reference\<close> to a Python list that \<^verbatim>\<open>subscribe\<close> mutates in place. The embedding
  therefore has
  \<^item> a store of list objects (\<open>list_objs\<close>), addressed by references;
  \<^item> the client as a record whose field \<open>topics\<close> is such a reference;
  \<^item> every effect on the outside (log records, the transport, the remote call, the user's
    coroutines) as an entry of a trace, in the order of time. Each entry carries the value
    that \<^verbatim>\<open>self._running\<close> has at the moment of the effect;
  \<^item> the hook tasks that \<^verbatim>\<open>asyncio.gather\<close> started and stopped waiting for, which are
    still running on the event loop (\<open>tasks\<close>);
  \<^item> every exception as a value of type \<open>fault\<close>; a function that may raise returns
    \<open>fault option\<close> (nothing to return) or \<open>fault + 'r\<close>.
\<close>

subsection \<open>Data\<close>

type_synonym topic = string
type_synonym ref = nat

text \<open>A coroutine function registered by the caller is known by its identity.\<close>

type_synonym coroutine = string

text \<open>
  The exceptions the code tells apart. \<^verbatim>\<open>ConnectionClosed\<close> is a subclass of
  \<^verbatim>\<open>WebSocketException\<close>, which is a subclass of \<^verbatim>\<open>Exception\<close>; \<open>BaseException\<close>
  stands for the exceptions outside \<^verbatim>\<open>Exception\<close> (cancellation, keyboard interrupt);
  \<open>RetryError\<close> is what tenacity raises when a bounded policy gives up.
\<close>

datatype fault =
    ConnectionClosed
  | WebSocketException string
  | Exception string
  | BaseException string
  | RetryError fault

fun is_Exception :: "fault \<Rightarrow> bool" where
  "is_Exception (BaseException m) = False"
| "is_Exception e = True"

text \<open>
  The tenacity keyword arguments the module uses: a wait strategy, and (for a caller
  that wants a bounded policy) \<^verbatim>\<open>stop_after_attempt\<close>; \<open>stop = None\<close> is tenacity's
  default \<^verbatim>\<open>stop_never\<close>. \<^verbatim>\<open>retry_config\<close> is either \<^verbatim>\<open>False\<close> or such a dictionary.
\<close>

datatype wait_strategy = wait_none | wait_fixed nat | wait_random_exponential nat

record policy =
  wait :: wait_strategy
  stop :: "nat option"

datatype retry_cfg = Disabled | Policy policy

datatype level = INFO | ERROR | CRITICAL

datatype event =
    Log level string
  | AEnter string
  | AExit
  | RemoteSubscribe "topic list"
  | HookCall coroutine
  | HookDone coroutine
  | WaitOnReader
  | CallbackCall coroutine "string option"
  | Sleep wait_strategy

type_synonym trace = "(bool \<times> event) list"

record world =
  list_objs :: "ref \<Rightarrow> topic list"
  trace :: trace
  tasks :: "coroutine list"

record client =
  methods :: string
  topics :: ref
  callbacks :: "topic \<rightharpoonup> coroutine"
  on_connect_callbacks :: "coroutine list"
  running :: bool
  connect_kwargs :: "(string \<times> string) list"
  retry_config :: retry_cfg

text \<open>The handle that \<^verbatim>\<open>async with WebSocketRpcClient(...) as client\<close> binds.\<close>

datatype conn = Conn (conn_uri: string)

text \<open>
  What a hook does when its task is first run: it finishes before it ever suspends
  (returning, or raising a fault), or it suspends, to finish at some later time.
\<close>

datatype step = Suspends | Finishes "fault option"

text \<open>
  The collaborators that are not in this module are parameters of the model: what the
  transport's \<^verbatim>\<open>__aenter__\<close> yields (a fault, \<^verbatim>\<open>None\<close> or a handle), and how the remote
  \<^verbatim>\<open>subscribe\<close> call, \<^verbatim>\<open>wait_on_reader\<close> and a topic callback end (\<open>None\<close>: normally). For
  the connect-hooks, which run concurrently: what the first run of a hook does
  (\<open>hook_step\<close>), which of the suspended hooks is the next to finish (\<open>hook_next\<close>, an
  index into the suspended ones, taken modulo their number) and how it finishes
  (\<open>hook_outcome\<close>). Each may depend on everything that happened so far, so each is a
  function of the trace up to and including the entry it is asked about.
\<close>

record env =
  aenter :: "string \<Rightarrow> string \<Rightarrow> retry_cfg \<Rightarrow> (string \<times> string) list \<Rightarrow> trace \<Rightarrow> fault + conn option"
  other_subscribe :: "trace \<Rightarrow> fault option"
  hook_step :: "trace \<Rightarrow> step"
  hook_next :: "trace \<Rightarrow> nat"
  hook_outcome :: "trace \<Rightarrow> fault option"
  reader_outcome :: "trace \<Rightarrow> fault option"
  callback_outcome :: "trace \<Rightarrow> fault option"

definition emit :: "client \<Rightarrow> event \<Rightarrow> world \<Rightarrow> world" where
  "emit self e w = w\<lparr>trace := trace w @ [(running self, e)]\<rparr>"

subsection \<open>The constructor\<close>

text \<open>
  \<^verbatim>\<open>def __init__(self, topics: List[Topic] = [], methods_class=None, retry_config=None, **kwargs)\<close>.
  The default value \<^verbatim>\<open>[]\<close> is evaluated once, when the \<^verbatim>\<open>def\<close> statement runs: it is one
  list object, at the reference \<open>default_topics\<close>, and every call that omits \<^verbatim>\<open>topics\<close>
  stores that reference. A caller's own list is stored by reference as well.
\<close>

definition default_topics :: ref where
  "default_topics = 0"

definition default_retry_config :: retry_cfg where
  "default_retry_config = Policy \<lparr>wait = wait_random_exponential 45, stop = None\<rparr>"

definition init :: "ref option \<Rightarrow> string option \<Rightarrow> retry_cfg option \<Rightarrow> (string \<times> string) list \<Rightarrow> client" where
  "init topics_arg methods_class retry_config_arg kwargs =
     \<lparr>methods = (case methods_class of Some m \<Rightarrow> m | None \<Rightarrow> ''RpcEventClientMethods''),
      topics = (case topics_arg of Some r \<Rightarrow> r | None \<Rightarrow> default_topics),
      callbacks = Map.empty,
      on_connect_callbacks = [],
      running = False,
      connect_kwargs = kwargs,
      retry_config = (case retry_config_arg of Some rc \<Rightarrow> rc | None \<Rightarrow> default_retry_config)\<rparr>"

subsection \<open>Registration\<close>

text \<open>
  \<^verbatim>\<open>subscribe\<close>: \<^verbatim>\<open>if not self._running: self._topics.append(topic); self._callbacks[topic] = callback\<close>.
  The append changes the list object in the store, not the client.
\<close>

definition subscribe :: "client \<Rightarrow> topic \<Rightarrow> coroutine \<Rightarrow> world \<Rightarrow> client \<times> world" where
  "subscribe self topic callback w =
     (if \<not> running self
      then (self\<lparr>callbacks := (callbacks self)(topic \<mapsto> callback)\<rparr>,
            w\<lparr>list_objs := (list_objs w)(topics self := list_objs w (topics self) @ [topic])\<rparr>)
      else (self, w))"

definition on_connect :: "client \<Rightarrow> coroutine \<Rightarrow> client" where
  "on_connect self callback = self\<lparr>on_connect_callbacks := on_connect_callbacks self @ [callback]\<rparr>"

text \<open>A caller's sequence of \<^verbatim>\<open>subscribe\<close> calls, in order.\<close>

fun subscribe_all :: "client \<Rightarrow> (topic \<times> coroutine) list \<Rightarrow> world \<Rightarrow> client \<times> world" where
  "subscribe_all self [] w = (self, w)"
| "subscribe_all self ((t, cb) # subs) w =
     (case subscribe self t cb w of (self', w') \<Rightarrow> subscribe_all self' subs w')"

subsection \<open>The handshake\<close>

text \<open>
  \<^verbatim>\<open>asyncio.gather(*(callback() for callback in self._on_connect_callbacks))\<close> with the
  default \<^verbatim>\<open>return_exceptions=False\<close>. It wraps every hook in a task; the tasks are run
  for the first time in list order, before the awaiting coroutine can be resumed, and
  each runs until it finishes or first suspends (\<open>start_hooks\<close>).
\<close>

fun start_hooks :: "env \<Rightarrow> client \<Rightarrow> coroutine list \<Rightarrow> world \<Rightarrow> (coroutine \<times> step) list \<times> world" where
  "start_hooks env self [] w = ([], w)"
| "start_hooks env self (h # hs) w =
     (let w1 = emit self (HookCall h) w in
      case start_hooks env self hs w1 of (rs, w2) \<Rightarrow> ((h, hook_step env (trace w1)) # rs, w2))"

text \<open>
  The completion callbacks of the tasks that finished at once run in list order, and the
  first that finds an exception gives it to the awaiting coroutine.
\<close>

fun first_raised :: "step list \<Rightarrow> fault option" where
  "first_raised [] = None"
| "first_raised (Finishes (Some e) # ss) = Some e"
| "first_raised (s # ss) = first_raised ss"

text \<open>
  Otherwise the awaiting coroutine stays suspended while the suspended hooks finish, one
  at a time, in the order the event loop and the outside world decide. The first that
  finishes with an exception ends the wait: that exception is raised, and the hooks
  still suspended are returned, neither cancelled nor waited for. When all have finished
  normally the wait ends normally.
\<close>

function await_hooks :: "env \<Rightarrow> client \<Rightarrow> coroutine list \<Rightarrow> world \<Rightarrow> fault option \<times> coroutine list \<times> world" where
  "await_hooks env self [] w = (None, [], w)"
| "await_hooks env self (p # ps) w =
     (let i = hook_next env (trace w) mod length (p # ps);
          w1 = emit self (HookDone ((p # ps) ! i)) w;
          rest = take i (p # ps) @ drop (Suc i) (p # ps)
      in case hook_outcome env (trace w1) of
           Some e \<Rightarrow> (Some e, rest, w1)
         | None \<Rightarrow> await_hooks env self rest w1)"
  by pat_completeness auto
termination
  by (relation "measure (\<lambda>(env, self, pending, w). length pending)") auto

text \<open>
  \<open>gather\<close> as a whole. The hooks it stops waiting for stay on the event loop: they are
  added to \<open>tasks\<close>. What they do from then on is outside the control flow of this
  module and is not recorded in the trace.
\<close>

definition gather :: "env \<Rightarrow> client \<Rightarrow> coroutine list \<Rightarrow> world \<Rightarrow> fault option \<times> world" where
  "gather env self hs w =
     (case start_hooks env self hs w of (started, w1) \<Rightarrow>
        (let pending = map fst (filter (\<lambda>x. snd x = Suspends) started) in
         case first_raised (map snd started) of
           Some e \<Rightarrow> (Some e, w1\<lparr>tasks := tasks w1 @ pending\<rparr>)
         | None \<Rightarrow>
             (case await_hooks env self pending w1 of
                (r, left, w2) \<Rightarrow> (r, w2\<lparr>tasks := tasks w2 @ left\<rparr>))))"

definition call_other_subscribe :: "env \<Rightarrow> client \<Rightarrow> topic list \<Rightarrow> world \<Rightarrow> fault option \<times> world" where
  "call_other_subscribe env self ts w =
     (let w' = emit self (RemoteSubscribe ts) w in (other_subscribe env (trace w'), w'))"

text \<open>\<^verbatim>\<open>_on_connection(self, client)\<close>.\<close>

definition on_connection :: "env \<Rightarrow> client \<Rightarrow> conn \<Rightarrow> world \<Rightarrow> fault option \<times> world" where
  "on_connection env self client w =
     (let w1 = emit self (Log INFO ''connected to server'') w in
      case (if list_objs w1 (topics self) \<noteq> []
            then call_other_subscribe env self (list_objs w1 (topics self)) w1
            else (None, w1)) of
        (Some e, w2) \<Rightarrow> (Some e, w2)
      | (None, w2) \<Rightarrow>
          if on_connect_callbacks self \<noteq> []
          then gather env self (on_connect_callbacks self) w2
          else (None, w2))"

subsection \<open>Dispatch\<close>

text \<open>\<^verbatim>\<open>act_on_topic(self, topic, data=None)\<close>: awaits the callback, so its fault is raised.\<close>

definition act_on_topic :: "env \<Rightarrow> client \<Rightarrow> topic \<Rightarrow> string option \<Rightarrow> world \<Rightarrow> fault option \<times> world" where
  "act_on_topic env self topic data w =
     (case callbacks self topic of
        Some cb \<Rightarrow> (let w' = emit self (CallbackCall cb data) w in (callback_outcome env (trace w'), w'))
      | None \<Rightarrow> (None, w))"

subsection \<open>One connection: the body of \<^verbatim>\<open>run\<close>\<close>

definition call_aenter :: "env \<Rightarrow> client \<Rightarrow> string \<Rightarrow> world \<Rightarrow> (fault + conn option) \<times> world" where
  "call_aenter env self uri w =
     (let w' = emit self (AEnter uri) w
      in (aenter env uri (methods self) (retry_config self) (connect_kwargs self) (trace w'), w'))"

definition call_wait_on_reader :: "env \<Rightarrow> client \<Rightarrow> world \<Rightarrow> fault option \<times> world" where
  "call_wait_on_reader env self w =
     (let w' = emit self WaitOnReader w in (reader_outcome env (trace w'), w'))"

text \<open>The \<^verbatim>\<open>try\<close> block.\<close>

definition run_try :: "env \<Rightarrow> client \<Rightarrow> conn option \<Rightarrow> bool \<Rightarrow> world \<Rightarrow> fault option \<times> client \<times> world" where
  "run_try env self client wait_on_reader w =
     (case client of
        None \<Rightarrow> (None, self, w)
      | Some cl \<Rightarrow>
          (let self1 = self\<lparr>running := True\<rparr> in
           case on_connection env self1 cl w of
             (Some e, w1) \<Rightarrow> (Some e, self1, w1)
           | (None, w1) \<Rightarrow>
               if wait_on_reader
               then (case call_wait_on_reader env self1 w1 of (r, w2) \<Rightarrow> (r, self1, w2))
               else (None, self1, w1)))"

text \<open>
  The \<^verbatim>\<open>except\<close> clauses, in the order of the source; each logs and re-raises. An
  exception outside \<^verbatim>\<open>Exception\<close> matches none of them.
\<close>

fun run_except :: "client \<Rightarrow> fault \<Rightarrow> world \<Rightarrow> world" where
  "run_except self ConnectionClosed w = emit self (Log ERROR ''RPC connection lost'') w"
| "run_except self (WebSocketException m) w = emit self (Log INFO ''RPC connection failed'') w"
| "run_except self (Exception m) w = emit self (Log CRITICAL ''RPC Uncaught Error'') w"
| "run_except self (RetryError e) w = emit self (Log CRITICAL ''RPC Uncaught Error'') w"
| "run_except self (BaseException m) w = w"

text \<open>
  The function that \<^verbatim>\<open>@apply_retry\<close> decorates. A fault of \<^verbatim>\<open>__aenter__\<close> is raised before
  the \<^verbatim>\<open>try\<close> statement is entered. Leaving the \<^verbatim>\<open>async with\<close> block releases the
  transport (\<open>AExit\<close>), which neither raises nor swallows the exception in flight.
\<close>

definition run_func :: "env \<Rightarrow> client \<Rightarrow> string \<times> bool \<Rightarrow> world \<Rightarrow> (fault + unit) \<times> client \<times> world" where
  "run_func env self args w =
     (case args of (uri, wait_on_reader) \<Rightarrow>
        (case call_aenter env self uri (emit self (Log INFO ''trying to connect'') w) of
           (Inl e, w2) \<Rightarrow> (Inl e, self, w2)
         | (Inr client, w2) \<Rightarrow>
             (case run_try env self client wait_on_reader w2 of (r, self1, w3) \<Rightarrow>
                (let w4 = (case r of Some e \<Rightarrow> run_except self1 e w3 | None \<Rightarrow> w3);
                     self2 = self1\<lparr>running := False\<rparr>
                 in (case r of Some e \<Rightarrow> Inl e | None \<Rightarrow> Inr (), self2, emit self2 AExit w4)))))"

subsection \<open>The retry decorator\<close>

text \<open>
  \<^verbatim>\<open>retry(**self._retry_config)(func)\<close>: tenacity calls \<^verbatim>\<open>func\<close>; a result is returned; an
  exception outside \<^verbatim>\<open>Exception\<close> is raised as it is; otherwise, if the stop condition
  holds for the attempt number, \<^verbatim>\<open>RetryError\<close> is raised, and if not, tenacity sleeps and
  calls \<^verbatim>\<open>func\<close> again on the same object. With \<^verbatim>\<open>stop_never\<close> this may go on forever:
  the loop is a partial function, \<open>None\<close> meaning that it never returns.
\<close>

definition stop_now :: "policy \<Rightarrow> nat \<Rightarrow> bool" where
  "stop_now p attempt = (case stop p of None \<Rightarrow> False | Some n \<Rightarrow> n \<le> attempt)"

partial_function (option) tenacity_retry ::
  "policy \<Rightarrow> (client \<Rightarrow> world \<Rightarrow> (fault + 'r) \<times> client \<times> world) \<Rightarrow> nat \<Rightarrow> client \<Rightarrow> world
     \<Rightarrow> ((fault + 'r) \<times> client \<times> world) option" where
  "tenacity_retry p f attempt self w =
     (case f self w of
        (Inr r, self', w') \<Rightarrow> Some (Inr r, self', w')
      | (Inl e, self', w') \<Rightarrow>
          if \<not> is_Exception e then Some (Inl e, self', w')
          else if stop_now p attempt then Some (Inl (RetryError e), self', w')
          else tenacity_retry p f (Suc attempt) self' (emit self' (Sleep (wait p)) w'))"

text \<open>
  \<^verbatim>\<open>apply_retry(func)\<close> returns \<^verbatim>\<open>wrapped_with_retries(self, *args, **kwargs)\<close>:
  \<^verbatim>\<open>func\<close> itself when \<^verbatim>\<open>self._retry_config is False\<close>, the tenacity wrapper otherwise.
\<close>

definition apply_retry ::
  "(client \<Rightarrow> 'a \<Rightarrow> world \<Rightarrow> (fault + 'r) \<times> client \<times> world) \<Rightarrow> client \<Rightarrow> 'a \<Rightarrow> world
     \<Rightarrow> ((fault + 'r) \<times> client \<times> world) option" where
  "apply_retry func self args w =
     (case retry_config self of
        Disabled \<Rightarrow> Some (func self args w)
      | Policy p \<Rightarrow> tenacity_retry p (\<lambda>s. func s args) 1 self w)"

definition run :: "env \<Rightarrow> client \<Rightarrow> string \<times> bool \<Rightarrow> world \<Rightarrow> ((fault + unit) \<times> client \<times> world) option" where
  "run env = apply_retry (run_func env)"

text \<open>\<^verbatim>\<open>start_client\<close> drives \<^verbatim>\<open>run(server_uri, run_sync)\<close> to completion on the event loop.\<close>

definition start_client :: "env \<Rightarrow> client \<Rightarrow> string \<Rightarrow> bool \<Rightarrow> world \<Rightarrow> ((fault + unit) \<times> client \<times> world) option" where
  "start_client env self server_uri run_sync w = run env self (server_uri, run_sync) w"

definition start_client_async :: "env \<Rightarrow> client \<Rightarrow> string \<Rightarrow> world \<Rightarrow> ((fault + unit) \<times> client \<times> world) option" where
  "start_client_async env self server_uri w = start_client env self server_uri False w"

subsection \<open>Vocabulary of the properties\<close>

text \<open>
  The faults that hooks raise in a stretch \<open>new\<close> of the trace that follows \<open>old\<close>, in the
  order of time: a hook raises at the entry where it starts, if it raises before it ever
  suspends, or at the entry where it finishes.
\<close>

fun hook_faults :: "env \<Rightarrow> trace \<Rightarrow> trace \<Rightarrow> fault list" where
  "hook_faults env old [] = []"
| "hook_faults env old (x # new) =
     (case snd x of
        HookCall h \<Rightarrow> (case hook_step env (old @ [x]) of Finishes (Some e) \<Rightarrow> [e] | _ \<Rightarrow> [])
      | HookDone h \<Rightarrow> (case hook_outcome env (old @ [x]) of Some e \<Rightarrow> [e] | None \<Rightarrow> [])
      | _ \<Rightarrow> [])
     @ hook_faults env (old @ [x]) new"

fun earliest :: "'a list \<Rightarrow> 'a option" where
  "earliest [] = None"
| "earliest (x # xs) = Some x"

fun is_hook_event :: "event \<Rightarrow> bool" where
  "is_hook_event (HookCall h) = True"
| "is_hook_event (HookDone h) = True"
| "is_hook_event e = False"

text \<open>The hooks called in a trace, in order.\<close>

fun hook_calls :: "trace \<Rightarrow> coroutine list" where
  "hook_calls [] = []"
| "hook_calls ((b, HookCall h) # es) = h # hook_calls es"
| "hook_calls (x # es) = hook_calls es"

subsection \<open>Concrete environments and clients\<close>

definition world0 :: world where
  "world0 = \<lparr>list_objs = (\<lambda>r. []), trace = [], tasks = []\<rparr>"

text \<open>
  A server that accepts every connection and closes it while the client waits on the
  reader, the first time only.
\<close>

definition env_drop_once :: env where
  "env_drop_once =
     \<lparr>aenter = (\<lambda>uri m rc kw tr. Inr (Some (Conn uri))),
      other_subscribe = (\<lambda>tr. None),
      hook_step = (\<lambda>tr. Finishes None),
      hook_next = (\<lambda>tr. 0),
      hook_outcome = (\<lambda>tr. None),
      reader_outcome = (\<lambda>tr. if length (filter (\<lambda>x. snd x = WaitOnReader) tr) \<le> 1
                              then Some ConnectionClosed else None),
      callback_outcome = (\<lambda>tr. None)\<rparr>"

text \<open>A server that refuses every connection.\<close>

definition env_refused :: env where
  "env_refused =
     \<lparr>aenter = (\<lambda>uri m rc kw tr. Inl (WebSocketException ''refused'')),
      other_subscribe = (\<lambda>tr. None),
      hook_step = (\<lambda>tr. Finishes None),
      hook_next = (\<lambda>tr. 0),
      hook_outcome = (\<lambda>tr. None),
      reader_outcome = (\<lambda>tr. None),
      callback_outcome = (\<lambda>tr. None)\<rparr>"

text \<open>A transport whose \<^verbatim>\<open>__aenter__\<close> yields \<^verbatim>\<open>None\<close>.\<close>

definition env_null :: env where
  "env_null =
     \<lparr>aenter = (\<lambda>uri m rc kw tr. Inr None),
      other_subscribe = (\<lambda>tr. None),
      hook_step = (\<lambda>tr. Finishes None),
      hook_next = (\<lambda>tr. 0),
      hook_outcome = (\<lambda>tr. None),
      reader_outcome = (\<lambda>tr. None),
      callback_outcome = (\<lambda>tr. None)\<rparr>"

text \<open>
  Every hook raises an exception that carries the hook's own name: at once, before it
  ever suspends (\<open>env_hooks_fail\<close>); or after suspending, except for \<open>h2\<close>, which raises at
  once (\<open>env_h1_suspends\<close>); or after suspending, the last of the suspended hooks being the
  first to finish (\<open>env_hooks_late\<close>).
\<close>

definition env_hooks_fail :: env where
  "env_hooks_fail =
     \<lparr>aenter = (\<lambda>uri m rc kw tr. Inr (Some (Conn uri))),
      other_subscribe = (\<lambda>tr. None),
      hook_step = (\<lambda>tr. case snd (last tr) of HookCall h \<Rightarrow> Finishes (Some (Exception h))
                                               | _ \<Rightarrow> Finishes None),
      hook_next = (\<lambda>tr. 0),
      hook_outcome = (\<lambda>tr. None),
      reader_outcome = (\<lambda>tr. None),
      callback_outcome = (\<lambda>tr. None)\<rparr>"

definition env_h1_suspends :: env where
  "env_h1_suspends =
     \<lparr>aenter = (\<lambda>uri m rc kw tr. Inr (Some (Conn uri))),
      other_subscribe = (\<lambda>tr. None),
      hook_step = (\<lambda>tr. case snd (last tr) of
                           HookCall h \<Rightarrow> if h = ''h2'' then Finishes (Some (Exception h)) else Suspends
                         | _ \<Rightarrow> Finishes None),
      hook_next = (\<lambda>tr. 0),
      hook_outcome = (\<lambda>tr. case snd (last tr) of HookDone h \<Rightarrow> Some (Exception h) | _ \<Rightarrow> None),
      reader_outcome = (\<lambda>tr. None),
      callback_outcome = (\<lambda>tr. None)\<rparr>"

definition env_hooks_late :: env where
  "env_hooks_late =
     \<lparr>aenter = (\<lambda>uri m rc kw tr. Inr (Some (Conn uri))),
      other_subscribe = (\<lambda>tr. None),
      hook_step = (\<lambda>tr. Suspends),
      hook_next = (\<lambda>tr. 1),
      hook_outcome = (\<lambda>tr. case snd (last tr) of HookDone h \<Rightarrow> Some (Exception h) | _ \<Rightarrow> None),
      reader_outcome = (\<lambda>tr. None),
      callback_outcome = (\<lambda>tr. None)\<rparr>"

text \<open>A server that accepts the connection; waiting on the reader then raises \<open>f\<close>.\<close>

definition env_reader_faults :: "fault \<Rightarrow> env" where
  "env_reader_faults f =
     \<lparr>aenter = (\<lambda>uri m rc kw tr. Inr (Some (Conn uri))),
      other_subscribe = (\<lambda>tr. None),
      hook_step = (\<lambda>tr. Finishes None),
      hook_next = (\<lambda>tr. 0),
      hook_outcome = (\<lambda>tr. None),
      reader_outcome = (\<lambda>tr. Some f),
      callback_outcome = (\<lambda>tr. None)\<rparr>"

text \<open>
  The client of the class's docstring, with its hook registered first:
  \<^verbatim>\<open>client = EventRpcClient(); client.on_connect(on_connect_coroutine);
  client.subscribe("guns", guns_coroutine); client.subscribe("germs", germs_coroutine)\<close>.
\<close>

definition docstring_client :: "client \<times> world" where
  "docstring_client =
     subscribe_all (on_connect (init None None None []) ''on_connect_coroutine'')
       [(''guns'', ''guns_coroutine''), (''germs'', ''germs_coroutine'')] world0"

text \<open>A client with two hooks and one topic.\<close>

definition two_hooks_client :: "client \<times> world" where
  "two_hooks_client =
     subscribe_all (on_connect (on_connect (init None None None []) ''h1'') ''h2'')
       [(''guns'', ''guns_coroutine'')] world0"


section \<open>Properties\<close>

declare tenacity_retry.simps [code]

subsection \<open>Basic facts\<close>

lemma trace_emit [simp]: "trace (emit self e w) = trace w @ [(running self, e)]"
  by (simp add: emit_def)

lemma list_objs_emit [simp]: "list_objs (emit self e w) = list_objs w"
  by (simp add: emit_def)

lemma tasks_emit [simp]: "tasks (emit self e w) = tasks w"
  by (simp add: emit_def)

subsection \<open>The hooks under \<open>gather\<close>\<close>

lemma hook_faults_append:
  "hook_faults env old (xs @ ys) = hook_faults env old xs @ hook_faults env (old @ xs) ys"
  by (induction xs arbitrary: old) simp_all

lemma hook_faults_no_hooks:
  "\<forall>x\<in>set xs. \<not> is_hook_event (snd x) \<Longrightarrow> hook_faults env old xs = []"
proof (induction xs arbitrary: old)
  case Nil
  show ?case by simp
next
  case (Cons x xs)
  then show ?case by (cases "snd x") simp_all
qed

lemma snd_start_hooks:
  "snd (start_hooks env self hs w) = w\<lparr>trace := trace w @ map (\<lambda>h. (running self, HookCall h)) hs\<rparr>"
  by (induction hs arbitrary: w) (simp_all add: emit_def Let_def case_prod_beta)

lemma first_raised_start_hooks:
  "first_raised (map snd (fst (start_hooks env self hs w)))
     = earliest (hook_faults env (trace w) (map (\<lambda>h. (running self, HookCall h)) hs))"
proof (induction hs arbitrary: w)
  case Nil
  show ?case by simp
next
  case (Cons h hs)
  let ?x = "(running self, HookCall h)"
  have ih: "first_raised (map snd (fst (start_hooks env self hs (emit self (HookCall h) w))))
     = earliest (hook_faults env (trace w @ [?x]) (map (\<lambda>h. (running self, HookCall h)) hs))"
    using Cons.IH [of "emit self (HookCall h) w"] by simp
  show ?case
  proof (cases "hook_step env (trace w @ [?x])")
    case Suspends
    then show ?thesis using ih by (simp add: Let_def case_prod_beta)
  next
    case (Finishes r)
    then show ?thesis using ih by (cases r) (simp_all add: Let_def case_prod_beta)
  qed
qed

lemma await_hooks_shape:
  "\<exists>dn. snd (snd (await_hooks env self ps w)) =
            w\<lparr>trace := trace w @ map (\<lambda>h. (running self, HookDone h)) dn\<rparr>
        \<and> fst (await_hooks env self ps w) =
            earliest (hook_faults env (trace w) (map (\<lambda>h. (running self, HookDone h)) dn))"
proof (induction env self ps w rule: await_hooks.induct)
  case (1 env self w)
  show ?case by (intro exI[of _ "[]"]) simp
next
  case (2 env self p ps w)
  let ?i = "hook_next env (trace w) mod length (p # ps)"
  let ?h = "(p # ps) ! ?i"
  let ?w1 = "emit self (HookDone ?h) w"
  let ?rest = "take ?i (p # ps) @ drop (Suc ?i) (p # ps)"
  show ?case
  proof (cases "hook_outcome env (trace ?w1)")
    case None
    from "2.IH" [OF refl refl refl None] obtain dn where
      dn: "snd (snd (await_hooks env self ?rest ?w1)) =
              ?w1\<lparr>trace := trace ?w1 @ map (\<lambda>h. (running self, HookDone h)) dn\<rparr>"
          "fst (await_hooks env self ?rest ?w1) =
              earliest (hook_faults env (trace ?w1) (map (\<lambda>h. (running self, HookDone h)) dn))"
      by blast
    have eq: "await_hooks env self (p # ps) w = await_hooks env self ?rest ?w1"
      using None by (simp add: Let_def)
    show ?thesis
      unfolding eq using dn None
      by (intro exI[of _ "?h # dn"]) (simp add: emit_def)
  next
    case (Some e)
    have eq: "await_hooks env self (p # ps) w = (Some e, ?rest, ?w1)"
      using Some by (simp add: Let_def)
    show ?thesis
      unfolding eq using Some
      by (intro exI[of _ "[?h]"]) (simp add: emit_def)
  qed
qed

lemma gather_shape:
  "\<exists>dn left. snd (gather env self hs w) =
            w\<lparr>trace := trace w @ map (\<lambda>h. (running self, HookCall h)) hs
                        @ map (\<lambda>h. (running self, HookDone h)) dn,
               tasks := tasks w @ left\<rparr>
        \<and> fst (gather env self hs w) =
            earliest (hook_faults env (trace w)
               (map (\<lambda>h. (running self, HookCall h)) hs @ map (\<lambda>h. (running self, HookDone h)) dn))"
proof -
  let ?st = "start_hooks env self hs w"
  let ?w1 = "w\<lparr>trace := trace w @ map (\<lambda>h. (running self, HookCall h)) hs\<rparr>"
  let ?pending = "map fst (filter (\<lambda>x. snd x = Suspends) (fst ?st))"
  have w1: "snd ?st = ?w1" by (rule snd_start_hooks)
  have fr: "first_raised (map snd (fst ?st))
     = earliest (hook_faults env (trace w) (map (\<lambda>h. (running self, HookCall h)) hs))"
    by (rule first_raised_start_hooks)
  show ?thesis
  proof (cases "first_raised (map snd (fst ?st))")
    case (Some e)
    then have "gather env self hs w = (Some e, ?w1\<lparr>tasks := tasks ?w1 @ ?pending\<rparr>)"
      using w1 by (simp add: gather_def case_prod_beta Let_def)
    then show ?thesis
      using fr Some by (intro exI[of _ "[]"] exI[of _ ?pending]) simp
  next
    case None
    from await_hooks_shape [of env self ?pending ?w1] obtain dn where
      dn: "snd (snd (await_hooks env self ?pending ?w1)) =
              ?w1\<lparr>trace := trace ?w1 @ map (\<lambda>h. (running self, HookDone h)) dn\<rparr>"
          "fst (await_hooks env self ?pending ?w1) =
              earliest (hook_faults env (trace ?w1) (map (\<lambda>h. (running self, HookDone h)) dn))"
      by blast
    let ?aw = "await_hooks env self ?pending ?w1"
    have g: "gather env self hs w = (fst ?aw, (snd (snd ?aw))\<lparr>tasks := tasks (snd (snd ?aw)) @ fst (snd ?aw)\<rparr>)"
      using None w1 by (simp add: gather_def case_prod_beta Let_def)
    have nf: "hook_faults env (trace w) (map (\<lambda>h. (running self, HookCall h)) hs) = []"
      using fr None by (cases "hook_faults env (trace w) (map (\<lambda>h. (running self, HookCall h)) hs)") simp_all
    show ?thesis
      unfolding g using dn nf
      by (intro exI[of _ dn] exI[of _ "fst (snd ?aw)"]) (simp add: hook_faults_append)
  qed
qed


lemma hook_calls_append: "hook_calls (xs @ ys) = hook_calls xs @ hook_calls ys"
  by (induction xs rule: hook_calls.induct) simp_all

lemma hook_calls_map: "hook_calls (map (\<lambda>h. (b, HookCall h)) hs) = hs"
  by (induction hs) simp_all

lemma hook_calls_done: "hook_calls (map (\<lambda>h. (b, HookDone h)) hs) = []"
  by (induction hs) simp_all

text \<open>An \<^verbatim>\<open>except\<close> clause only logs.\<close>

lemma run_except_world:
  "\<exists>l. run_except self e w = w\<lparr>trace := trace w @ map (\<lambda>x. (running self, x)) l\<rparr>
     \<and> (\<forall>x\<in>set l. \<exists>lv m. x = Log lv m \<and> m \<noteq> ''trying to connect'')"
proof (cases e)
  case ConnectionClosed
  then show ?thesis by (intro exI[of _ "[Log ERROR ''RPC connection lost'']"]) (simp add: emit_def)
next
  case (WebSocketException m)
  then show ?thesis by (intro exI[of _ "[Log INFO ''RPC connection failed'']"]) (simp add: emit_def)
next
  case (Exception m)
  then show ?thesis by (intro exI[of _ "[Log CRITICAL ''RPC Uncaught Error'']"]) (simp add: emit_def)
next
  case (BaseException m)
  then show ?thesis by (intro exI[of _ "[]"]) simp
next
  case (RetryError f)
  then show ?thesis by (intro exI[of _ "[Log CRITICAL ''RPC Uncaught Error'']"]) (simp add: emit_def)
qed

text \<open>A sequence of \<^verbatim>\<open>subscribe\<close> calls before start.\<close>

lemma subscribe_all_trace [simp]: "trace (snd (subscribe_all self subs w)) = trace w"
  by (induction self subs w rule: subscribe_all.induct) (simp_all add: subscribe_def)

lemma subscribe_all_client: "\<exists>m. fst (subscribe_all self subs w) = self\<lparr>callbacks := m\<rparr>"
proof (induction self subs w rule: subscribe_all.induct)
  case (1 self w)
  show ?case by (auto intro: exI[of _ "callbacks self"])
next
  case (2 self t cb subs w)
  then show ?case by (auto simp: subscribe_def)
qed

lemma subscribe_all_list_objs:
  "\<not> running self \<Longrightarrow>
     list_objs (snd (subscribe_all self subs w)) =
       (list_objs w)(topics self := list_objs w (topics self) @ map fst subs)"
proof (induction self subs w rule: subscribe_all.induct)
  case (1 self w)
  show ?case by simp
next
  case (2 self t cb subs w)
  then show ?case by (simp add: subscribe_def fun_eq_iff)
qed

subsection \<open>The shape of one connection\<close>

lemma on_connection_shape:
  "\<exists>hev left. snd (on_connection env self cl w) =
     w\<lparr>trace := trace w @ [(running self, Log INFO ''connected to server'')]
        @ (if list_objs w (topics self) = [] then []
           else [(running self, RemoteSubscribe (list_objs w (topics self)))])
        @ map (Pair (running self)) hev,
       tasks := tasks w @ left\<rparr>
     \<and> (\<forall>e\<in>set hev. is_hook_event e)"
proof -
  let ?w1 = "emit self (Log INFO ''connected to server'') w"
  let ?ts = "list_objs w (topics self)"
  let ?sub = "if ?ts \<noteq> [] then call_other_subscribe env self ?ts ?w1 else (None, ?w1)"
  have oc: "on_connection env self cl w =
      (case ?sub of (Some e, w2) \<Rightarrow> (Some e, w2)
       | (None, w2) \<Rightarrow> if on_connect_callbacks self \<noteq> []
                       then gather env self (on_connect_callbacks self) w2 else (None, w2))"
    by (simp add: on_connection_def Let_def)
  have w2: "snd ?sub = w\<lparr>trace := trace w @ [(running self, Log INFO ''connected to server'')]
        @ (if ?ts = [] then [] else [(running self, RemoteSubscribe ?ts)])\<rparr>"
    by (simp add: call_other_subscribe_def emit_def Let_def)
  show ?thesis
  proof (cases "fst ?sub = None \<and> on_connect_callbacks self \<noteq> []")
    case True
    then have "snd (on_connection env self cl w) = snd (gather env self (on_connect_callbacks self) (snd ?sub))"
      unfolding oc by (cases ?sub) auto
    moreover from gather_shape [of env self "on_connect_callbacks self" "snd ?sub"] obtain dn left where
      "snd (gather env self (on_connect_callbacks self) (snd ?sub)) =
         (snd ?sub)\<lparr>trace := trace (snd ?sub) @ map (\<lambda>h. (running self, HookCall h)) (on_connect_callbacks self)
                        @ map (\<lambda>h. (running self, HookDone h)) dn,
               tasks := tasks (snd ?sub) @ left\<rparr>"
      by blast
    ultimately show ?thesis
      unfolding w2
      by (intro exI[of _ "map HookCall (on_connect_callbacks self) @ map HookDone dn"] exI[of _ left])
         (auto simp: comp_def)
  next
    case False
    then have "snd (on_connection env self cl w) = snd ?sub"
      unfolding oc by (cases ?sub) (auto split: option.splits)
    then show ?thesis
      unfolding w2 by (intro exI[of _ "[]"]) simp
  qed
qed

lemma run_try_shape:
  "\<exists>hev left rd. snd (snd (run_try env self (Some cl) wr w)) =
     w\<lparr>trace := trace w @ [(True, Log INFO ''connected to server'')]
        @ (if list_objs w (topics self) = [] then []
           else [(True, RemoteSubscribe (list_objs w (topics self)))])
        @ map (Pair True) hev @ map (Pair True) rd,
       tasks := tasks w @ left\<rparr>
     \<and> set rd \<subseteq> {WaitOnReader} \<and> (\<forall>e\<in>set hev. is_hook_event e)"
proof -
  let ?s1 = "self\<lparr>running := True\<rparr>"
  obtain hev left where hs': "snd (on_connection env ?s1 cl w) =
     w\<lparr>trace := trace w @ [(True, Log INFO ''connected to server'')]
        @ (if list_objs w (topics self) = [] then []
           else [(True, RemoteSubscribe (list_objs w (topics self)))])
        @ map (Pair True) hev,
       tasks := tasks w @ left\<rparr>"
    and hev: "\<forall>e\<in>set hev. is_hook_event e"
    using on_connection_shape [of env ?s1 cl w] by (auto cong: if_cong)
  show ?thesis
  proof (cases "fst (on_connection env ?s1 cl w) = None \<and> wr")
    case True
    then have "snd (snd (run_try env self (Some cl) wr w)) = emit ?s1 WaitOnReader (snd (on_connection env ?s1 cl w))"
      by (cases "on_connection env ?s1 cl w") (simp add: run_try_def Let_def call_wait_on_reader_def)
    then show ?thesis
      unfolding hs' using hev
      by (intro exI[of _ hev] exI[of _ left] exI[of _ "[WaitOnReader]"]) (simp add: emit_def)
  next
    case False
    then have "snd (snd (run_try env self (Some cl) wr w)) = snd (on_connection env ?s1 cl w)"
      by (cases "on_connection env ?s1 cl w") (auto simp: run_try_def Let_def split: option.splits)
    then show ?thesis
      unfolding hs' using hev by (intro exI[of _ hev] exI[of _ left] exI[of _ "[]"]) simp
  qed
qed

lemma run_try_client:
  "fst (snd (run_try env self (Some cl) wr w)) = self\<lparr>running := True\<rparr>"
  by (simp add: run_try_def Let_def case_prod_beta split: option.splits prod.splits)

lemma snd_call_aenter: "snd (call_aenter env self uri w) = emit self (AEnter uri) w"
  by (simp add: call_aenter_def Let_def)

lemma emit_emit_trying:
  "emit self (AEnter uri) (emit self (Log INFO ''trying to connect'') w) =
     w\<lparr>trace := trace w @ [(running self, Log INFO ''trying to connect''), (running self, AEnter uri)]\<rparr>"
  by (simp add: emit_def)

lemma run_func_unfold:
  assumes acq: "fst (call_aenter env self uri (emit self (Log INFO ''trying to connect'') w)) = Inr client"
  shows "run_func env self (uri, wr) w =
     (let w2 = snd (call_aenter env self uri (emit self (Log INFO ''trying to connect'') w));
          t = run_try env self client wr w2;
          w4 = (case fst t of Some e \<Rightarrow> run_except (fst (snd t)) e (snd (snd t)) | None \<Rightarrow> snd (snd t));
          self2 = (fst (snd t))\<lparr>running := False\<rparr>
      in (case fst t of Some e \<Rightarrow> Inl e | None \<Rightarrow> Inr (), self2, emit self2 AExit w4))"
  using acq
  by (cases "call_aenter env self uri (emit self (Log INFO ''trying to connect'') w)")
     (simp add: run_func_def Let_def case_prod_beta)

lemma run_func_connected:
  assumes acq: "fst (call_aenter env self uri (emit self (Log INFO ''trying to connect'') w)) = Inr (Some cl)"
  shows "\<exists>hev left rd lg. snd (snd (run_func env self (uri, wr) w)) =
     w\<lparr>trace := trace w @ [(running self, Log INFO ''trying to connect''), (running self, AEnter uri),
                            (True, Log INFO ''connected to server'')]
        @ (if list_objs w (topics self) = [] then []
           else [(True, RemoteSubscribe (list_objs w (topics self)))])
        @ map (Pair True) hev @ map (Pair True) rd @ map (Pair True) lg @ [(False, AExit)],
       tasks := tasks w @ left\<rparr>
     \<and> set rd \<subseteq> {WaitOnReader}
     \<and> (\<forall>x\<in>set lg. \<exists>lv m. x = Log lv m \<and> m \<noteq> ''trying to connect'')
     \<and> (\<forall>e\<in>set hev. is_hook_event e)"
proof -
  let ?w2 = "w\<lparr>trace := trace w @ [(running self, Log INFO ''trying to connect''), (running self, AEnter uri)]\<rparr>"
  let ?t = "run_try env self (Some cl) wr ?w2"
  let ?s1 = "self\<lparr>running := True\<rparr>"
  obtain hev left rd where w3: "snd (snd ?t) =
     ?w2\<lparr>trace := trace ?w2 @ [(True, Log INFO ''connected to server'')]
        @ (if list_objs ?w2 (topics self) = [] then []
           else [(True, RemoteSubscribe (list_objs ?w2 (topics self)))])
        @ map (Pair True) hev @ map (Pair True) rd,
       tasks := tasks ?w2 @ left\<rparr>"
     and rd: "set rd \<subseteq> {WaitOnReader}"
     and hev: "\<forall>e\<in>set hev. is_hook_event e"
    using run_try_shape [of env self cl wr ?w2] by blast
  have s1: "fst (snd ?t) = ?s1" by (rule run_try_client)
  obtain lg where w4: "(case fst ?t of Some e \<Rightarrow> run_except ?s1 e (snd (snd ?t)) | None \<Rightarrow> snd (snd ?t))
        = (snd (snd ?t))\<lparr>trace := trace (snd (snd ?t)) @ map (Pair True) lg\<rparr>"
     and lg: "\<forall>x\<in>set lg. \<exists>lv m. x = Log lv m \<and> m \<noteq> ''trying to connect''"
  proof (cases "fst ?t")
    case None
    show ?thesis by (rule that[of "[]"]) (simp_all add: None)
  next
    case (Some e)
    from run_except_world [of ?s1 e "snd (snd ?t)"] obtain l where
      "run_except ?s1 e (snd (snd ?t)) = (snd (snd ?t))\<lparr>trace := trace (snd (snd ?t)) @ map (Pair True) l\<rparr>"
      "\<forall>x\<in>set l. \<exists>lv m. x = Log lv m \<and> m \<noteq> ''trying to connect''"
      by auto
    then show ?thesis by (intro that[of l]) (simp_all add: Some)
  qed
  have "snd (snd (run_func env self (uri, wr) w)) =
      emit (?s1\<lparr>running := False\<rparr>) AExit
        (case fst ?t of Some e \<Rightarrow> run_except ?s1 e (snd (snd ?t)) | None \<Rightarrow> snd (snd ?t))"
    unfolding run_func_unfold [OF acq] Let_def snd_call_aenter emit_emit_trying run_try_client
    by simp
  then have "snd (snd (run_func env self (uri, wr) w)) =
      emit (?s1\<lparr>running := False\<rparr>) AExit
        ((snd (snd ?t))\<lparr>trace := trace (snd (snd ?t)) @ map (Pair True) lg\<rparr>)"
    by (simp only: w4)
  then have "snd (snd (run_func env self (uri, wr) w)) =
     w\<lparr>trace := trace w @ [(running self, Log INFO ''trying to connect''), (running self, AEnter uri),
                            (True, Log INFO ''connected to server'')]
        @ (if list_objs w (topics self) = [] then []
           else [(True, RemoteSubscribe (list_objs w (topics self)))])
        @ map (Pair True) hev @ map (Pair True) rd @ map (Pair True) lg @ [(False, AExit)],
       tasks := tasks w @ left\<rparr>"
    by (simp add: w3 emit_def)
  with rd lg hev show ?thesis by blast
qed

lemma run_func_client:
  assumes acq: "fst (call_aenter env self uri (emit self (Log INFO ''trying to connect'') w)) = Inr client"
  shows "fst (snd (run_func env self (uri, wr) w)) = self\<lparr>running := False\<rparr>"
proof (cases client)
  case None
  then show ?thesis by (simp add: run_func_unfold [OF acq] Let_def run_try_def)
next
  case (Some cl)
  then show ?thesis by (simp add: run_func_unfold [OF acq] Let_def run_try_client)
qed

lemma run_func_refused:
  assumes acq: "fst (call_aenter env self uri (emit self (Log INFO ''trying to connect'') w)) = Inl e"
  shows "run_func env self (uri, wr) w =
           (Inl e, self, w\<lparr>trace := trace w @ [(running self, Log INFO ''trying to connect''), (running self, AEnter uri)]\<rparr>)"
  using acq snd_call_aenter [of env self uri "emit self (Log INFO ''trying to connect'') w"]
  by (cases "call_aenter env self uri (emit self (Log INFO ''trying to connect'') w)")
     (simp add: run_func_def emit_emit_trying)

lemma run_func_null:
  assumes acq: "fst (call_aenter env self uri (emit self (Log INFO ''trying to connect'') w)) = Inr None"
  shows "run_func env self (uri, wr) w =
           (Inr (), self\<lparr>running := False\<rparr>,
            w\<lparr>trace := trace w @ [(running self, Log INFO ''trying to connect''), (running self, AEnter uri),
                                   (False, AExit)]\<rparr>)"
  unfolding run_func_unfold [OF acq] Let_def snd_call_aenter emit_emit_trying
  by (simp add: run_try_def emit_def)

text \<open>
  A handshake whose remote subscribe call (if there is one) does not fault: all that is
  left of it is \<open>gather\<close> on the hooks.
\<close>

lemma on_connection_sub_ok:
  fixes self :: client and w :: world and env :: env
  defines "w1 \<equiv> emit self (Log INFO ''connected to server'') w"
      and "ts \<equiv> list_objs w (topics self)"
  defines "w2 \<equiv> (if ts = [] then w1 else snd (call_other_subscribe env self ts w1))"
  assumes sub: "ts \<noteq> [] \<Longrightarrow> fst (call_other_subscribe env self ts w1) = None"
  shows "on_connection env self cl w = gather env self (on_connect_callbacks self) w2"
proof -
  have g0: "gather env self [] v = (None, v)" for v
    by (simp add: gather_def)
  show ?thesis
  proof (cases "ts = []")
    case True
    then show ?thesis
      unfolding on_connection_def Let_def w2_def w1_def ts_def
      by (cases "on_connect_callbacks self") (simp_all add: g0)
  next
    case False
    with sub have "call_other_subscribe env self ts w1 = (None, w2)"
      unfolding w2_def by (cases "call_other_subscribe env self ts w1") simp
    with False show ?thesis
      unfolding on_connection_def Let_def w1_def ts_def
      by (cases "on_connect_callbacks self") (simp_all add: g0)
  qed
qed

lemma hook_calls_no_hooks:
  "\<forall>x\<in>set xs. \<not> is_hook_event (snd x) \<Longrightarrow> hook_calls xs = []"
proof (induction xs)
  case Nil
  show ?case by simp
next
  case (Cons x xs)
  obtain b e where x: "x = (b, e)" by (cases x)
  with Cons show ?case by (cases e) simp_all
qed

lemma run_func_handshake_ok:
  fixes self :: client and w :: world and env :: env and uri :: string
  defines "self1 \<equiv> self\<lparr>running := True\<rparr>"
      and "w2 \<equiv> snd (call_aenter env self uri (emit self (Log INFO ''trying to connect'') w))"
      and "ts \<equiv> list_objs w (topics self)"
  defines "w3 \<equiv> emit self1 (Log INFO ''connected to server'') w2"
  defines "pre \<equiv> [(running self, Log INFO ''trying to connect''), (running self, AEnter uri),
                    (True, Log INFO ''connected to server'')]
                   @ (if ts = [] then [] else [(True, RemoteSubscribe ts)])"
  assumes acq: "fst (call_aenter env self uri (emit self (Log INFO ''trying to connect'') w)) = Inr (Some cl)"
      and sub: "ts \<noteq> [] \<Longrightarrow> fst (call_other_subscribe env self1 ts w3) = None"
  shows "\<exists>dn post.
           trace (snd (snd (run_func env self (uri, wr) w))) =
             trace w @ pre @ map (\<lambda>h. (True, HookCall h)) (on_connect_callbacks self)
               @ map (\<lambda>h. (True, HookDone h)) dn @ post
         \<and> (\<forall>x\<in>set post. \<not> is_hook_event (snd x))
         \<and> fst (on_connection env self1 cl w2) =
             earliest (hook_faults env (trace w @ pre)
               (map (\<lambda>h. (True, HookCall h)) (on_connect_callbacks self) @ map (\<lambda>h. (True, HookDone h)) dn))
         \<and> (\<forall>e. fst (on_connection env self1 cl w2) = Some e
                \<longrightarrow> fst (run_func env self (uri, wr) w) = Inl e)"
proof -
  let ?hs = "on_connect_callbacks self"
  let ?w4 = "if ts = [] then w3 else snd (call_other_subscribe env self1 ts w3)"
  have lo: "list_objs w2 (topics self1) = ts"
    by (simp add: w2_def snd_call_aenter ts_def self1_def)
  have oc: "on_connection env self1 cl w2 = gather env self1 ?hs ?w4"
    using sub on_connection_sub_ok [of w2 self1 env cl]
    unfolding lo w3_def by (simp add: self1_def)
  have t4: "trace ?w4 = trace w @ pre"
    by (simp add: w3_def w2_def pre_def snd_call_aenter call_other_subscribe_def Let_def self1_def)
  from gather_shape [of env self1 ?hs ?w4] obtain dn left where
    gw: "snd (gather env self1 ?hs ?w4) =
            ?w4\<lparr>trace := trace ?w4 @ map (\<lambda>h. (running self1, HookCall h)) ?hs
                        @ map (\<lambda>h. (running self1, HookDone h)) dn,
                 tasks := tasks ?w4 @ left\<rparr>"
    and gf: "fst (gather env self1 ?hs ?w4) =
            earliest (hook_faults env (trace ?w4)
               (map (\<lambda>h. (running self1, HookCall h)) ?hs @ map (\<lambda>h. (running self1, HookDone h)) dn))"
    by blast
  obtain r wg where g: "gather env self1 ?hs ?w4 = (r, wg)"
    by (cases "gather env self1 ?hs ?w4")
  have twg: "trace wg = trace w @ pre @ map (\<lambda>h. (True, HookCall h)) ?hs @ map (\<lambda>h. (True, HookDone h)) dn"
    using gw g t4 by (simp add: self1_def)
  have rf: "r = earliest (hook_faults env (trace w @ pre)
               (map (\<lambda>h. (True, HookCall h)) ?hs @ map (\<lambda>h. (True, HookDone h)) dn))"
    using gf g t4 by (simp add: self1_def)
  let ?t = "run_try env self (Some cl) wr w2"
  have rt: "?t =
      (case r of Some e \<Rightarrow> (Some e, self1, wg)
       | None \<Rightarrow> if wr then (case call_wait_on_reader env self1 wg of (r', w') \<Rightarrow> (r', self1, w'))
                 else (None, self1, wg))"
    using oc g by (simp add: run_try_def Let_def self1_def split: option.split)
  have s1: "fst (snd ?t) = self1"
    unfolding self1_def by (rule run_try_client)
  obtain rd where trd: "trace (snd (snd ?t)) = trace wg @ map (Pair True) rd"
    and rd: "set rd \<subseteq> {WaitOnReader}"
  proof (cases "r = None \<and> wr")
    case True
    then have "trace (snd (snd ?t)) = trace wg @ map (Pair True) [WaitOnReader]"
      unfolding rt by (simp add: call_wait_on_reader_def Let_def self1_def)
    then show ?thesis by (rule that) simp
  next
    case False
    then have "trace (snd (snd ?t)) = trace wg @ map (Pair True) []"
      unfolding rt by (auto split: option.splits)
    then show ?thesis by (rule that) simp
  qed
  obtain lg where w4: "trace (case fst ?t of Some e \<Rightarrow> run_except self1 e (snd (snd ?t)) | None \<Rightarrow> snd (snd ?t))
        = trace (snd (snd ?t)) @ map (Pair True) lg"
     and lg: "\<forall>x\<in>set lg. \<exists>lv m. x = Log lv m"
  proof (cases "fst ?t")
    case None
    show ?thesis by (rule that[of "[]"]) (simp_all add: None)
  next
    case (Some e)
    from run_except_world [of self1 e "snd (snd ?t)"] obtain l where
      "run_except self1 e (snd (snd ?t)) = (snd (snd ?t))\<lparr>trace := trace (snd (snd ?t)) @ map (Pair (running self1)) l\<rparr>"
      "\<forall>x\<in>set l. \<exists>lv m. x = Log lv m \<and> m \<noteq> ''trying to connect''"
      by auto
    then show ?thesis by (intro that[of l]) (auto simp: Some self1_def)
  qed
  have fin: "trace (snd (snd (run_func env self (uri, wr) w))) =
      trace (case fst ?t of Some e \<Rightarrow> run_except self1 e (snd (snd ?t)) | None \<Rightarrow> snd (snd ?t))
        @ [(False, AExit)]"
    unfolding run_func_unfold [OF acq] Let_def w2_def [symmetric] s1
    by simp
  let ?post = "map (Pair True) rd @ map (Pair True) lg @ [(False, AExit)]"
  have "trace (snd (snd (run_func env self (uri, wr) w))) =
             trace w @ pre @ map (\<lambda>h. (True, HookCall h)) ?hs @ map (\<lambda>h. (True, HookDone h)) dn @ ?post"
    unfolding fin w4 trd twg by simp
  moreover have "\<forall>x\<in>set ?post. \<not> is_hook_event (snd x)"
    using rd lg by auto
  moreover have "fst (on_connection env self1 cl w2) =
             earliest (hook_faults env (trace w @ pre)
               (map (\<lambda>h. (True, HookCall h)) ?hs @ map (\<lambda>h. (True, HookDone h)) dn))"
    using oc g rf by simp
  moreover have "fst (on_connection env self1 cl w2) = Some e \<longrightarrow> fst (run_func env self (uri, wr) w) = Inl e" for e
  proof
    assume "fst (on_connection env self1 cl w2) = Some e"
    with oc g have "r = Some e" by simp
    then have "fst ?t = Some e" unfolding rt by simp
    then show "fst (run_func env self (uri, wr) w) = Inl e"
      unfolding run_func_unfold [OF acq] Let_def w2_def [symmetric] by simp
  qed
  ultimately show ?thesis by blast
qed

text \<open>
  The four kinds of fault, raised while waiting on the reader: each is raised again by
  \<^verbatim>\<open>run\<close>'s body after the log record of its \<^verbatim>\<open>except\<close> clause (none for an exception
  outside \<^verbatim>\<open>Exception\<close>), with the flag reset.
\<close>

lemma except_clauses:
  "map (\<lambda>f. case run_func (env_reader_faults f) (init None None None []) (''ws://x'', True) world0 of
               (r, c, w) \<Rightarrow> (r, running c, drop 4 (trace w)))
     [ConnectionClosed, WebSocketException ''bad frame'', Exception ''boom'', BaseException ''cancelled'']
   = [(Inl ConnectionClosed, False, [(True, Log ERROR ''RPC connection lost''), (False, AExit)]),
      (Inl (WebSocketException ''bad frame''), False,
         [(True, Log INFO ''RPC connection failed''), (False, AExit)]),
      (Inl (Exception ''boom''), False, [(True, Log CRITICAL ''RPC Uncaught Error''), (False, AExit)]),
      (Inl (BaseException ''cancelled''), False, [(False, AExit)])]"
  by code_simp

subsection \<open>Across retries\<close>

text \<open>
  An invocation of \<^verbatim>\<open>run\<close>'s body changes nothing but the flag, the trace and the hook
  tasks left running; hence,
  however many times the retry loop ran it, the topic list, the callbacks and the hooks
  that a reconnection finds are those of the first connection. With the default policy,
  which never stops, \<^verbatim>\<open>run\<close> does not return as long as every attempt faults.
\<close>

lemma run_func_frame:
  "\<exists>b new left. snd (run_func env self args w) =
      (self\<lparr>running := b\<rparr>, w\<lparr>trace := trace w @ new, tasks := tasks w @ left\<rparr>)"
proof -
  obtain uri wr where args: "args = (uri, wr)" by (cases args)
  show ?thesis
  proof (cases "fst (call_aenter env self uri (emit self (Log INFO ''trying to connect'') w))")
    case (Inl e)
    show ?thesis
      unfolding args run_func_refused [OF Inl]
      by (intro exI[of _ "running self"]
                exI[of _ "[(running self, Log INFO ''trying to connect''), (running self, AEnter uri)]"]
                exI[of _ "[]"]) simp
  next
    case (Inr client)
    have c: "fst (snd (run_func env self (uri, wr) w)) = self\<lparr>running := False\<rparr>"
      by (rule run_func_client [OF Inr])
    have "\<exists>new left. snd (snd (run_func env self (uri, wr) w)) =
            w\<lparr>trace := trace w @ new, tasks := tasks w @ left\<rparr>"
    proof (cases client)
      case None
      with Inr have acq: "fst (call_aenter env self uri (emit self (Log INFO ''trying to connect'') w)) = Inr None"
        by simp
      show ?thesis
        unfolding run_func_null [OF acq]
        by (intro exI[of _ "[(running self, Log INFO ''trying to connect''), (running self, AEnter uri),
                              (False, AExit)]"] exI[of _ "[]"]) simp
    next
      case (Some cl)
      with Inr have acq: "fst (call_aenter env self uri (emit self (Log INFO ''trying to connect'') w)) = Inr (Some cl)"
        by simp
      from run_func_connected [OF acq, of wr] show ?thesis by blast
    qed
    with c show ?thesis
      unfolding args by (metis prod.collapse)
  qed
qed

lemma tenacity_retry_frame:
  assumes eq: "tenacity_retry p f n self w = Some y"
      and fr: "\<forall>s v. \<exists>b new left. snd (f s v) =
                 (s\<lparr>running := b\<rparr>, v\<lparr>trace := trace v @ new, tasks := tasks v @ left\<rparr>)"
  shows "\<exists>b new left. snd y = (self\<lparr>running := b\<rparr>, w\<lparr>trace := trace w @ new, tasks := tasks w @ left\<rparr>)"
proof -
  let ?P = "\<lambda>(p::policy) (f::client \<Rightarrow> world \<Rightarrow> (fault + 'a) \<times> client \<times> world) (n::nat) self w y.
              (\<forall>s v. \<exists>b new left. snd (f s v) =
                 (s\<lparr>running := b\<rparr>, v\<lparr>trace := trace v @ new, tasks := tasks v @ left\<rparr>)) \<longrightarrow>
              (\<exists>b new left. snd y =
                 (self\<lparr>running := b\<rparr>, w\<lparr>trace := trace w @ new, tasks := tasks w @ left\<rparr>))"
  have "?P p f n self w y"
  proof (rule tenacity_retry.raw_induct [where P = ?P, OF _ eq], goal_cases)
    case (1 tr p f attempt self w y)
    show ?case
    proof
      assume fr: "\<forall>s v. \<exists>b new left. snd (f s v) =
                 (s\<lparr>running := b\<rparr>, v\<lparr>trace := trace v @ new, tasks := tasks v @ left\<rparr>)"
      then obtain b new left where
        "snd (f self w) = (self\<lparr>running := b\<rparr>, w\<lparr>trace := trace w @ new, tasks := tasks w @ left\<rparr>)"
        by blast
      then obtain r where fsw:
        "f self w = (r, self\<lparr>running := b\<rparr>, w\<lparr>trace := trace w @ new, tasks := tasks w @ left\<rparr>)"
        by (cases "f self w") simp
      let ?s = "self\<lparr>running := b\<rparr>"
      let ?w = "w\<lparr>trace := trace w @ new, tasks := tasks w @ left\<rparr>"
      show "\<exists>b new left. snd y =
              (self\<lparr>running := b\<rparr>, w\<lparr>trace := trace w @ new, tasks := tasks w @ left\<rparr>)"
      proof (cases "\<exists>e. r = Inl e \<and> is_Exception e \<and> \<not> stop_now p attempt")
        case True
        then obtain e where e: "r = Inl e" "is_Exception e" "\<not> stop_now p attempt" by blast
        with 1(2) fsw have "tr p f (Suc attempt) ?s (emit ?s (Sleep (wait p)) ?w) = Some y"
          by simp
        from 1(1) [OF this] fr obtain b' new' left' where
          "snd y = (?s\<lparr>running := b'\<rparr>,
                    (emit ?s (Sleep (wait p)) ?w)\<lparr>trace := trace (emit ?s (Sleep (wait p)) ?w) @ new',
                                                  tasks := tasks (emit ?s (Sleep (wait p)) ?w) @ left'\<rparr>)"
          by blast
        then show ?thesis
          by (intro exI[of _ b'] exI[of _ "new @ [(b, Sleep (wait p))] @ new'"] exI[of _ "left @ left'"])
             (simp add: emit_def)
      next
        case False
        have "snd y = (?s, ?w)"
          using 1(2) False unfolding fsw by (cases r) (auto split: if_splits)
        then show ?thesis by blast
      qed
    qed
  qed
  with fr show ?thesis by blast
qed

lemma run_registry_frozen:
  assumes "run env self args w = Some (r, self', w')"
  shows "topics self' = topics self \<and> callbacks self' = callbacks self
       \<and> on_connect_callbacks self' = on_connect_callbacks self
       \<and> list_objs w' = list_objs w"
proof -
  have "\<exists>b new left. snd (r, self', w') =
          (self\<lparr>running := b\<rparr>, w\<lparr>trace := trace w @ new, tasks := tasks w @ left\<rparr>)"
  proof (cases "retry_config self")
    case Disabled
    with assms have "run_func env self args w = (r, self', w')"
      by (simp add: run_def apply_retry_def)
    with run_func_frame [of env self args w] show ?thesis by simp
  next
    case (Policy p)
    with assms have "tenacity_retry p (\<lambda>s. run_func env s args) 1 self w = Some (r, self', w')"
      by (simp add: run_def apply_retry_def)
    from tenacity_retry_frame [OF this] run_func_frame show ?thesis by blast
  qed
  then show ?thesis by auto
qed

text \<open>The flag at each entry of the trace, in one invocation and across the retry loop.\<close>

lemma run_func_flags:
  assumes nr: "\<not> running self"
  shows "\<exists>new. trace (snd (snd (run_func env self (uri, wr) w))) = trace w @ new
        \<and> (\<forall>x\<in>set new. fst x = (snd x \<notin> {Log INFO ''trying to connect'', AEnter uri, AExit})
                        \<and> (\<forall>s. snd x \<noteq> Sleep s))
        \<and> \<not> running (fst (snd (run_func env self (uri, wr) w)))"
proof (cases "fst (call_aenter env self uri (emit self (Log INFO ''trying to connect'') w))")
  case (Inl e)
  show ?thesis
    unfolding run_func_refused [OF Inl] using nr
    by (intro exI[of _ "[(False, Log INFO ''trying to connect''), (False, AEnter uri)]"]) simp
next
  case (Inr client)
  have fin: "\<not> running (fst (snd (run_func env self (uri, wr) w)))"
    by (simp add: run_func_client [OF Inr])
  show ?thesis
  proof (cases client)
    case None
    with Inr have acq: "fst (call_aenter env self uri (emit self (Log INFO ''trying to connect'') w)) = Inr None"
      by simp
    show ?thesis
      unfolding run_func_null [OF acq] using nr
      by (intro exI[of _ "[(False, Log INFO ''trying to connect''), (False, AEnter uri), (False, AExit)]"]) simp
  next
    case (Some cl)
    with Inr have acq: "fst (call_aenter env self uri (emit self (Log INFO ''trying to connect'') w)) = Inr (Some cl)"
      by simp
    from run_func_connected [OF acq, of wr] obtain hev left rd lg where
      shape: "snd (snd (run_func env self (uri, wr) w)) =
       w\<lparr>trace := trace w @ [(running self, Log INFO ''trying to connect''), (running self, AEnter uri),
                              (True, Log INFO ''connected to server'')]
          @ (if list_objs w (topics self) = [] then []
             else [(True, RemoteSubscribe (list_objs w (topics self)))])
          @ map (Pair True) hev @ map (Pair True) rd @ map (Pair True) lg @ [(False, AExit)],
         tasks := tasks w @ left\<rparr>"
      and rd: "set rd \<subseteq> {WaitOnReader}"
      and lg: "\<forall>x\<in>set lg. \<exists>lv m. x = Log lv m \<and> m \<noteq> ''trying to connect''"
      and hev: "\<forall>e\<in>set hev. is_hook_event e"
      by blast
    let ?new = "[(False, Log INFO ''trying to connect''), (False, AEnter uri),
                              (True, Log INFO ''connected to server'')]
          @ (if list_objs w (topics self) = [] then []
             else [(True, RemoteSubscribe (list_objs w (topics self)))])
          @ map (Pair True) hev @ map (Pair True) rd @ map (Pair True) lg @ [(False, AExit)]"
    have "trace (snd (snd (run_func env self (uri, wr) w))) = trace w @ ?new"
      unfolding shape using nr by simp
    moreover have "\<forall>x\<in>set ?new. fst x = (snd x \<notin> {Log INFO ''trying to connect'', AEnter uri, AExit})
                        \<and> (\<forall>s. snd x \<noteq> Sleep s)"
      using rd lg hev by auto
    ultimately show ?thesis using fin by blast
  qed
qed


lemma tenacity_retry_flags:
  assumes eq: "tenacity_retry p (\<lambda>s. run_func env s (uri, wr)) n self w = Some y"
      and nr: "\<not> running self"
  shows "\<not> running (fst (snd y))
       \<and> (\<exists>new. trace (snd (snd y)) = trace w @ new
            \<and> (\<forall>x\<in>set new. fst x = (snd x \<notin> {Log INFO ''trying to connect'', AEnter uri, AExit}
                                     \<and> (\<forall>s. snd x \<noteq> Sleep s))))"
proof -
  let ?good = "\<lambda>x. fst x = (snd x \<notin> {Log INFO ''trying to connect'', AEnter uri, AExit}
                                     \<and> (\<forall>s. snd x \<noteq> Sleep s))"
  let ?P = "\<lambda>(p::policy) (f::client \<Rightarrow> world \<Rightarrow> (fault + unit) \<times> client \<times> world) (n::nat) self w y.
              f = (\<lambda>s. run_func env s (uri, wr)) \<longrightarrow> \<not> running self \<longrightarrow>
              \<not> running (fst (snd y))
              \<and> (\<exists>new. trace (snd (snd y)) = trace w @ new \<and> (\<forall>x\<in>set new. ?good x))"
  have "?P p (\<lambda>s. run_func env s (uri, wr)) n self w y"
  proof (rule tenacity_retry.raw_induct [where P = ?P, OF _ eq], goal_cases)
    case (1 tr p f attempt self w y)
    show ?case
    proof (intro impI)
      assume f: "f = (\<lambda>s. run_func env s (uri, wr))" and nr: "\<not> running self"
      from run_func_flags [OF nr, of env uri wr w] obtain new where
        new: "trace (snd (snd (f self w))) = trace w @ new"
          "\<forall>x\<in>set new. ?good x"
          "\<not> running (fst (snd (f self w)))"
        unfolding f by blast
      obtain r s' w' where fsw: "f self w = (r, s', w')"
        by (cases "f self w")
      with new have w': "trace w' = trace w @ new" and s': "\<not> running s'"
        by simp_all
      show "\<not> running (fst (snd y))
              \<and> (\<exists>new. trace (snd (snd y)) = trace w @ new \<and> (\<forall>x\<in>set new. ?good x))"
      proof (cases "\<exists>e. r = Inl e \<and> is_Exception e \<and> \<not> stop_now p attempt")
        case True
        then obtain e where e: "r = Inl e" "is_Exception e" "\<not> stop_now p attempt" by blast
        with 1(2) fsw have "tr p f (Suc attempt) s' (emit s' (Sleep (wait p)) w') = Some y"
          by simp
        from 1(1) [OF this] f s' obtain new' where
          y: "\<not> running (fst (snd y))"
             "trace (snd (snd y)) = trace (emit s' (Sleep (wait p)) w') @ new'"
             "\<forall>x\<in>set new'. ?good x"
          by blast
        have "trace (snd (snd y)) = trace w @ (new @ [(False, Sleep (wait p))] @ new')"
          using y(2) w' s' by simp
        moreover have "\<forall>x\<in>set (new @ [(False, Sleep (wait p))] @ new'). ?good x"
          using new(2) y(3) by auto
        ultimately show ?thesis using y(1) by blast
      next
        case False
        have "snd y = (s', w')"
          using 1(2) False unfolding fsw by (cases r) (auto split: if_splits)
        then show ?thesis using w' s' new(2) by auto
      qed
    qed
  qed
  with nr show ?thesis by blast
qed

lemma tenacity_retry_diverges:
  assumes eq: "tenacity_retry p f n self w = Some y"
      and st: "stop p = None"
      and fl: "\<forall>s v. \<exists>e. fst (f s v) = Inl e \<and> is_Exception e"
  shows False
proof -
  let ?P = "\<lambda>(p::policy) (f::client \<Rightarrow> world \<Rightarrow> (fault + 'a) \<times> client \<times> world) (n::nat)
              (self::client) (w::world) (y::(fault + 'a) \<times> client \<times> world).
              stop p = None \<longrightarrow> (\<forall>s v. \<exists>e. fst (f s v) = Inl e \<and> is_Exception e) \<longrightarrow> False"
  have "?P p f n self w y"
  proof (rule tenacity_retry.raw_induct [where P = ?P, OF _ eq], goal_cases)
    case (1 tr p f attempt self w y)
    show ?case
    proof (intro impI)
      assume st: "stop p = None"
         and fl: "\<forall>s v. \<exists>e. fst (f s v) = Inl e \<and> is_Exception e"
      then obtain e where "fst (f self w) = Inl e" and e: "is_Exception e"
        by blast
      then obtain s' w' where fsw: "f self w = (Inl e, s', w')"
        by (cases "f self w") simp
      have "tr p f (Suc attempt) s' (emit s' (Sleep (wait p)) w') = Some y"
        using 1(2) e st unfolding fsw by (simp add: stop_now_def)
      from 1(1) [OF this] st fl show False by blast
    qed
  qed
  with st fl show False by blast
qed

lemma unbounded_retry_never_returns:
  "run env_refused (init None None None []) (uri, wr) w = None"
proof (cases "run env_refused (init None None None []) (uri, wr) w")
  case None
  then show ?thesis .
next
  case (Some y)
  let ?p = "\<lparr>wait = wait_random_exponential 45, stop = None\<rparr>"
  from Some have eq: "tenacity_retry ?p (\<lambda>s. run_func env_refused s (uri, wr)) 1 (init None None None []) w = Some y"
    by (simp add: run_def apply_retry_def init_def default_retry_config_def)
  have "\<exists>e. fst (run_func env_refused s (uri, wr) v) = Inl e \<and> is_Exception e" for s v
  proof -
    have "fst (call_aenter env_refused s uri (emit s (Log INFO ''trying to connect'') v))
            = Inl (WebSocketException ''refused'')"
      by (simp add: call_aenter_def env_refused_def Let_def)
    from run_func_refused [OF this, of wr] show ?thesis by simp
  qed
  with tenacity_retry_diverges [OF eq] show ?thesis by simp
qed

subsection \<open>Registration and dispatch\<close>

text \<open>
  Claim C2. Whatever the topic and the callback, \<^verbatim>\<open>subscribe\<close> called while
  \<^verbatim>\<open>_running\<close> is true returns with the client (so its callback map) and the store (so
  the topic list) exactly as they were.
\<close>

theorem subscribe_while_running_noop:
  "running self \<Longrightarrow> subscribe self topic callback w = (self, w)"
  by (simp add: subscribe_def)

theorem subscribe_while_running_noop_witness:
  "running ((init None None None [])\<lparr>running := True\<rparr>)
   \<and> subscribe ((init None None None [])\<lparr>running := True\<rparr>) ''steel'' ''steel_coroutine'' world0
       = ((init None None None [])\<lparr>running := True\<rparr>, world0)"
  using subscribe_while_running_noop
          [of "(init None None None [])\<lparr>running := True\<rparr>" "''steel''" "''steel_coroutine''" world0]
  by simp

text \<open>
  Claim C7. \<^verbatim>\<open>act_on_topic\<close> for a topic with a registered callback makes one call, of
  that callback, with the payload it was given, and ends as the callback ends; for a
  topic without a callback it does nothing and raises nothing.
\<close>

theorem act_on_topic_dispatch:
  "(callbacks self topic = Some cb \<longrightarrow>
      act_on_topic env self topic data w =
        (callback_outcome env (trace w @ [(running self, CallbackCall cb data)]),
         w\<lparr>trace := trace w @ [(running self, CallbackCall cb data)]\<rparr>))
   \<and> (callbacks self topic = None \<longrightarrow> act_on_topic env self topic data w = (None, w))"
  by (simp add: act_on_topic_def emit_def Let_def)

theorem act_on_topic_dispatch_witness:
  "callbacks (fst docstring_client) ''guns'' = Some ''guns_coroutine''
   \<and> callbacks (fst docstring_client) ''steel'' = None
   \<and> trace (snd (act_on_topic env_drop_once (fst docstring_client) ''guns'' (Some ''bang'') world0))
       = [(False, CallbackCall ''guns_coroutine'' (Some ''bang''))]
   \<and> act_on_topic env_drop_once (fst docstring_client) ''steel'' (Some ''clang'') world0 = (None, world0)"
proof -
  have a: "callbacks (fst docstring_client) ''guns'' = Some ''guns_coroutine''"
    by (simp add: docstring_client_def subscribe_def on_connect_def init_def)
  have b: "callbacks (fst docstring_client) ''steel'' = None"
    by (simp add: docstring_client_def subscribe_def on_connect_def init_def)
  have r: "\<not> running (fst docstring_client)"
    by (simp add: docstring_client_def subscribe_def on_connect_def init_def)
  from a b r
    act_on_topic_dispatch [of "fst docstring_client" "''guns''" "''guns_coroutine''"
                              env_drop_once "Some ''bang''" world0]
    act_on_topic_dispatch [of "fst docstring_client" "''steel''" "''x''"
                              env_drop_once "Some ''clang''" world0]
  show ?thesis by (simp add: world0_def)
qed

text \<open>
  Claim C8. Before start, \<^verbatim>\<open>subscribe(t, c1)\<close> followed by \<^verbatim>\<open>subscribe(t, c2)\<close> leaves the
  same callback map as \<^verbatim>\<open>subscribe(t, c2)\<close> alone, so a later dispatch for \<open>t\<close> (whatever
  the flag is by then) does the same in both cases: it calls \<open>c2\<close>, once, and never \<open>c1\<close>.
\<close>

theorem last_subscribe_wins:
  fixes self :: client and t :: topic and c1 c2 :: coroutine and w :: world
  defines "twice \<equiv> fst (subscribe (fst (subscribe self t c1 w)) t c2 (snd (subscribe self t c1 w)))"
      and "once \<equiv> fst (subscribe self t c2 w)"
  assumes "\<not> running self"
  shows "callbacks twice = callbacks once
       \<and> act_on_topic env (twice\<lparr>running := b\<rparr>) t d w' = act_on_topic env (once\<lparr>running := b\<rparr>) t d w'
       \<and> trace (snd (act_on_topic env (twice\<lparr>running := b\<rparr>) t d w')) = trace w' @ [(b, CallbackCall c2 d)]"
  using assms by (simp add: subscribe_def act_on_topic_def Let_def)

theorem last_subscribe_wins_witness:
  "\<not> running (init None None None [])
   \<and> trace (snd (act_on_topic env_drop_once
        ((fst (subscribe (fst (subscribe (init None None None []) ''guns'' ''old'' world0)) ''guns'' ''new''
                 (snd (subscribe (init None None None []) ''guns'' ''old'' world0))))\<lparr>running := True\<rparr>)
        ''guns'' (Some ''bang'') world0))
       = [(True, CallbackCall ''new'' (Some ''bang''))]"
proof -
  have h: "\<not> running (init None None None [])"
    by (simp add: init_def)
  have "trace (snd (act_on_topic env_drop_once
        ((fst (subscribe (fst (subscribe (init None None None []) ''guns'' ''old'' world0)) ''guns'' ''new''
                 (snd (subscribe (init None None None []) ''guns'' ''old'' world0))))\<lparr>running := True\<rparr>)
        ''guns'' (Some ''bang'') world0))
       = trace world0 @ [(True, CallbackCall ''new'' (Some ''bang''))]"
    using last_subscribe_wins [OF h, of "''guns''" "''old''" world0 "''new''"
                                  env_drop_once True "Some ''bang''" world0]
    by blast
  with h show ?thesis by (simp add: world0_def)
qed

subsection \<open>The retry decorator\<close>

text \<open>
  Claim C5. With \<^verbatim>\<open>_retry_config is False\<close> the wrapper is one call of the wrapped function
  on the same object with the same arguments, and returns what that call returns, fault
  or not. For \<^verbatim>\<open>run\<close>: a fault of the transport's \<^verbatim>\<open>__aenter__\<close> reaches the caller as it
  is, after one attempt to connect and no sleep.
\<close>

theorem retry_disabled_single_call:
  assumes dis: "retry_config self = Disabled"
  shows "apply_retry func self args w = Some (func self args w)
       \<and> (fst (call_aenter env self uri (emit self (Log INFO ''trying to connect'') w)) = Inl e \<longrightarrow>
            run env self (uri, wr) w =
              Some (Inl e, self,
                    w\<lparr>trace := trace w @ [(running self, Log INFO ''trying to connect''),
                                           (running self, AEnter uri)]\<rparr>))"
  using dis by (simp add: run_def apply_retry_def run_func_refused)

theorem retry_disabled_single_call_witness:
  "retry_config (init None None (Some Disabled) []) = Disabled
   \<and> fst (call_aenter env_refused (init None None (Some Disabled) []) ''ws://x''
            (emit (init None None (Some Disabled) []) (Log INFO ''trying to connect'') world0))
       = Inl (WebSocketException ''refused'')
   \<and> run env_refused (init None None (Some Disabled) []) (''ws://x'', True) world0
       = Some (Inl (WebSocketException ''refused''), init None None (Some Disabled) [],
               world0\<lparr>trace := trace world0 @
                  [(running (init None None (Some Disabled) []), Log INFO ''trying to connect''),
                   (running (init None None (Some Disabled) []), AEnter ''ws://x'')]\<rparr>)"
proof -
  have d: "retry_config (init None None (Some Disabled) []) = Disabled"
    by (simp add: init_def)
  have h: "fst (call_aenter env_refused (init None None (Some Disabled) []) ''ws://x''
            (emit (init None None (Some Disabled) []) (Log INFO ''trying to connect'') world0))
       = Inl (WebSocketException ''refused'')"
    by (simp add: call_aenter_def env_refused_def Let_def)
  from retry_disabled_single_call [OF d, of "run_func env_refused" "(''ws://x'', True)" world0
         env_refused "''ws://x''" "WebSocketException ''refused''" True] d h
  show ?thesis by blast
qed

text \<open>
  With a policy the wrapper does retry: against a server that refuses every connection,
  a policy bounded to two attempts connects twice, sleeping in between, and gives up; and
  after a connection is lost the whole handshake is replayed on the next connection.
\<close>

lemma bounded_policy_retries:
  "map_option (\<lambda>r. (fst r, trace (snd (snd r))))
     (run env_refused (init None None (Some (Policy \<lparr>wait = wait_fixed 1, stop = Some 2\<rparr>)) [])
        (''ws://x'', True) world0)
    = Some (Inl (RetryError (WebSocketException ''refused'')),
            [(False, Log INFO ''trying to connect''), (False, AEnter ''ws://x''),
             (False, Sleep (wait_fixed 1)),
             (False, Log INFO ''trying to connect''), (False, AEnter ''ws://x'')])"
  by code_simp

lemma reconnect_replays_handshake:
  "map_option (\<lambda>r. (fst r, running (fst (snd r)), trace (snd (snd r))))
     (run env_drop_once (fst docstring_client) (''ws://x'', True) (snd docstring_client))
    = Some (Inr (), False,
            [(False, Log INFO ''trying to connect''), (False, AEnter ''ws://x''),
             (True, Log INFO ''connected to server''),
             (True, RemoteSubscribe [''guns'', ''germs'']),
             (True, HookCall ''on_connect_coroutine''),
             (True, WaitOnReader),
             (True, Log ERROR ''RPC connection lost''),
             (False, AExit),
             (False, Sleep (wait_random_exponential 45)),
             (False, Log INFO ''trying to connect''), (False, AEnter ''ws://x''),
             (True, Log INFO ''connected to server''),
             (True, RemoteSubscribe [''guns'', ''germs'']),
             (True, HookCall ''on_connect_coroutine''),
             (True, WaitOnReader),
             (False, AExit)])"
  by code_simp

subsection \<open>The running flag\<close>

text \<open>
  Claim C4. Once \<^verbatim>\<open>__aenter__\<close> has returned (so that the \<^verbatim>\<open>try\<close> statement is entered),
  whatever happens inside, with a handle or with \<^verbatim>\<open>None\<close>: \<^verbatim>\<open>_running\<close> is false when the
  invocation ends, it is already false when the transport is released, which is the last
  thing the invocation does, and the invocation ends as the \<^verbatim>\<open>try\<close> block ended (normally,
  or raising the same fault).
\<close>

theorem running_reset_on_exit:
  assumes acq: "fst (call_aenter env self uri (emit self (Log INFO ''trying to connect'') w)) = Inr client"
  shows "\<not> running (fst (snd (run_func env self (uri, wr) w)))
       \<and> last (trace (snd (snd (run_func env self (uri, wr) w)))) = (False, AExit)
       \<and> fst (run_func env self (uri, wr) w) =
           (case fst (run_try env self client wr
                        (snd (call_aenter env self uri (emit self (Log INFO ''trying to connect'') w)))) of
              Some e \<Rightarrow> Inl e | None \<Rightarrow> Inr ())"
  unfolding run_func_unfold [OF acq] Let_def by simp

theorem running_reset_on_exit_witness:
  "fst (call_aenter env_drop_once (fst docstring_client) ''ws://localhost:8000/ws/test-client1''
          (emit (fst docstring_client) (Log INFO ''trying to connect'') (snd docstring_client)))
     = Inr (Some (Conn ''ws://localhost:8000/ws/test-client1''))
   \<and> fst (run_func env_drop_once (fst docstring_client) (''ws://localhost:8000/ws/test-client1'', True)
            (snd docstring_client)) = Inl ConnectionClosed
   \<and> \<not> running (fst (snd (run_func env_drop_once (fst docstring_client)
                             (''ws://localhost:8000/ws/test-client1'', True) (snd docstring_client))))"
proof -
  have h: "fst (call_aenter env_drop_once (fst docstring_client) ''ws://localhost:8000/ws/test-client1''
          (emit (fst docstring_client) (Log INFO ''trying to connect'') (snd docstring_client)))
     = Inr (Some (Conn ''ws://localhost:8000/ws/test-client1''))"
    by (simp add: call_aenter_def env_drop_once_def Let_def)
  have f: "fst (run_func env_drop_once (fst docstring_client) (''ws://localhost:8000/ws/test-client1'', True)
            (snd docstring_client)) = Inl ConnectionClosed"
    by code_simp
  from running_reset_on_exit [OF h, of True] h f show ?thesis by blast
qed

text \<open>
  Claim C10. When \<^verbatim>\<open>__aenter__\<close> yields \<^verbatim>\<open>None\<close>, \<^verbatim>\<open>run\<close> (under any retry configuration)
  returns normally after that one attempt: the only effects are the log record, the
  acquisition and the release, so no remote subscribe and no hook; and \<^verbatim>\<open>_running\<close> is
  false.
\<close>

theorem null_handle_run:
  assumes acq: "fst (call_aenter env self uri (emit self (Log INFO ''trying to connect'') w)) = Inr None"
  shows "run env self (uri, wr) w =
           Some (Inr (), self\<lparr>running := False\<rparr>,
                 w\<lparr>trace := trace w @ [(running self, Log INFO ''trying to connect''),
                                        (running self, AEnter uri), (False, AExit)]\<rparr>)"
proof (cases "retry_config self")
  case Disabled
  then show ?thesis by (simp add: run_def apply_retry_def run_func_null [OF acq])
next
  case (Policy p)
  have "tenacity_retry p (\<lambda>s. run_func env s (uri, wr)) 1 self w =
           Some (Inr (), self\<lparr>running := False\<rparr>,
                 w\<lparr>trace := trace w @ [(running self, Log INFO ''trying to connect''),
                                        (running self, AEnter uri), (False, AExit)]\<rparr>)"
    by (subst tenacity_retry.simps) (simp add: run_func_null [OF acq])
  with Policy show ?thesis by (simp add: run_def apply_retry_def)
qed

theorem null_handle_run_witness:
  "fst (call_aenter env_null (fst docstring_client) ''ws://localhost:8000/ws/test-client1''
          (emit (fst docstring_client) (Log INFO ''trying to connect'') (snd docstring_client))) = Inr None
   \<and> map_option (\<lambda>r. (fst r, running (fst (snd r)), trace (snd (snd r))))
        (run env_null (fst docstring_client) (''ws://localhost:8000/ws/test-client1'', True) (snd docstring_client))
       = Some (Inr (), False,
               [(False, Log INFO ''trying to connect''), (False, AEnter ''ws://localhost:8000/ws/test-client1''),
                (False, AExit)])"
proof -
  have h: "fst (call_aenter env_null (fst docstring_client) ''ws://localhost:8000/ws/test-client1''
          (emit (fst docstring_client) (Log INFO ''trying to connect'') (snd docstring_client))) = Inr None"
    by (simp add: call_aenter_def env_null_def Let_def)
  have r: "\<not> running (fst docstring_client)" "trace (snd docstring_client) = []"
    by (simp_all add: docstring_client_def subscribe_def on_connect_def init_def world0_def)
  from h r null_handle_run [OF h, of True] show ?thesis by simp
qed

text \<open>
  Claim C3, as stated, fails: \<^verbatim>\<open>run\<close> sets \<^verbatim>\<open>_running\<close> before it awaits \<^verbatim>\<open>_on_connection\<close>,
  so the flag is true while the batched subscribe call and the hooks execute. On the
  docstring's client (not waiting on the reader) the remote subscribe and the hook are
  both entered with the flag true.
\<close>

theorem running_during_handshake_counterexample:
  "trace (snd (snd (run_func env_drop_once (fst docstring_client) (''ws://x'', False) (snd docstring_client))))
     = [(False, Log INFO ''trying to connect''), (False, AEnter ''ws://x''),
        (True, Log INFO ''connected to server''),
        (True, RemoteSubscribe [''guns'', ''germs'']),
        (True, HookCall ''on_connect_coroutine''),
        (False, AExit)]"
  by code_simp

text \<open>
  Claim C3, amended. Take the lifecycle from a client whose flag is false. In each
  invocation of \<^verbatim>\<open>run\<close>'s body (each connection attempt), the flag is true exactly at the
  entries between the acquisition of a handle and the release of the transport, and
  false at the first log record, at the acquisition and at the release; it is false when
  the invocation ends. With a handle that is not \<^verbatim>\<open>None\<close> the flag is set before the
  handshake: it is true at the log record of the connection, when the batched subscribe
  call is issued and, when that call does not fault, when each hook is started. Without
  such a handle it is never true. In a run of the retry wrapper that returns, the same
  holds at every entry, the flag being false whenever the wrapper sleeps, and the flag is
  false on return.
\<close>

theorem running_flag_span:
  fixes self :: client and w :: world and env :: env and uri :: string and wr :: bool
  defines "acq \<equiv> fst (call_aenter env self uri (emit self (Log INFO ''trying to connect'') w))"
      and "self1 \<equiv> self\<lparr>running := True\<rparr>"
      and "ts \<equiv> list_objs w (topics self)"
      and "new \<equiv> drop (length (trace w)) (trace (snd (snd (run_func env self (uri, wr) w))))"
  defines "w3 \<equiv> emit self1 (Log INFO ''connected to server'')
                  (snd (call_aenter env self uri (emit self (Log INFO ''trying to connect'') w)))"
  assumes nr: "\<not> running self"
  shows "trace (snd (snd (run_func env self (uri, wr) w))) = trace w @ new
       \<and> (\<forall>x\<in>set new. fst x = (snd x \<notin> {Log INFO ''trying to connect'', AEnter uri, AExit}))
       \<and> \<not> running (fst (snd (run_func env self (uri, wr) w)))
       \<and> (\<forall>cl. acq = Inr (Some cl) \<longrightarrow>
             (True, Log INFO ''connected to server'') \<in> set new
           \<and> (ts \<noteq> [] \<longrightarrow> (True, RemoteSubscribe ts) \<in> set new)
           \<and> ((ts \<noteq> [] \<longrightarrow> fst (call_other_subscribe env self1 ts w3) = None) \<longrightarrow>
                (\<forall>h\<in>set (on_connect_callbacks self). (True, HookCall h) \<in> set new)))
       \<and> ((\<forall>cl. acq \<noteq> Inr (Some cl)) \<longrightarrow> (\<forall>x\<in>set new. \<not> fst x))
       \<and> (\<forall>y. run env self (uri, wr) w = Some y \<longrightarrow>
             \<not> running (fst (snd y))
           \<and> (\<forall>x\<in>set (drop (length (trace w)) (trace (snd (snd y)))).
                 fst x = (snd x \<notin> {Log INFO ''trying to connect'', AEnter uri, AExit}
                          \<and> (\<forall>s. snd x \<noteq> Sleep s))))"
proof -
  from run_func_flags [OF nr, of env uri wr w] obtain new' where
    n1: "trace (snd (snd (run_func env self (uri, wr) w))) = trace w @ new'"
    and n2: "\<forall>x\<in>set new'. fst x = (snd x \<notin> {Log INFO ''trying to connect'', AEnter uri, AExit})
                        \<and> (\<forall>s. snd x \<noteq> Sleep s)"
    and n3: "\<not> running (fst (snd (run_func env self (uri, wr) w)))"
    by blast
  have new: "new = new'"
    unfolding new_def n1 by simp
  have c1: "trace (snd (snd (run_func env self (uri, wr) w))) = trace w @ new"
    unfolding new by (rule n1)
  have c2: "\<forall>x\<in>set new. fst x = (snd x \<notin> {Log INFO ''trying to connect'', AEnter uri, AExit})"
    unfolding new using n2 by blast
  have c4: "(True, Log INFO ''connected to server'') \<in> set new
           \<and> (ts \<noteq> [] \<longrightarrow> (True, RemoteSubscribe ts) \<in> set new)
           \<and> ((ts \<noteq> [] \<longrightarrow> fst (call_other_subscribe env self1 ts w3) = None) \<longrightarrow>
                (\<forall>h\<in>set (on_connect_callbacks self). (True, HookCall h) \<in> set new))"
    if a: "acq = Inr (Some cl)" for cl
  proof -
    have acq': "fst (call_aenter env self uri (emit self (Log INFO ''trying to connect'') w)) = Inr (Some cl)"
      using a unfolding acq_def .
    from run_func_connected [OF acq', of wr] obtain hev left rd lg where
      "snd (snd (run_func env self (uri, wr) w)) =
       w\<lparr>trace := trace w @ [(running self, Log INFO ''trying to connect''), (running self, AEnter uri),
                              (True, Log INFO ''connected to server'')]
          @ (if list_objs w (topics self) = [] then []
             else [(True, RemoteSubscribe (list_objs w (topics self)))])
          @ map (Pair True) hev @ map (Pair True) rd @ map (Pair True) lg @ [(False, AExit)],
         tasks := tasks w @ left\<rparr>"
      by blast
    then have "new = [(running self, Log INFO ''trying to connect''), (running self, AEnter uri),
                              (True, Log INFO ''connected to server'')]
          @ (if ts = [] then [] else [(True, RemoteSubscribe ts)])
          @ map (Pair True) hev @ map (Pair True) rd @ map (Pair True) lg @ [(False, AExit)]"
      unfolding new_def ts_def by simp
    then have p12: "(True, Log INFO ''connected to server'') \<in> set new"
        "ts \<noteq> [] \<longrightarrow> (True, RemoteSubscribe ts) \<in> set new"
      by simp_all
    have p3: "\<forall>h\<in>set (on_connect_callbacks self). (True, HookCall h) \<in> set new"
      if sub: "ts \<noteq> [] \<longrightarrow> fst (call_other_subscribe env self1 ts w3) = None"
    proof -
      from sub have sub': "list_objs w (topics self) \<noteq> [] \<Longrightarrow>
          fst (call_other_subscribe env (self\<lparr>running := True\<rparr>) (list_objs w (topics self))
                (emit (self\<lparr>running := True\<rparr>) (Log INFO ''connected to server'')
                   (snd (call_aenter env self uri (emit self (Log INFO ''trying to connect'') w))))) = None"
        unfolding ts_def self1_def w3_def by simp
      from run_func_handshake_ok [OF acq' sub', of wr] obtain dn post pre where
        "trace (snd (snd (run_func env self (uri, wr) w))) =
           trace w @ pre @ map (\<lambda>h. (True, HookCall h)) (on_connect_callbacks self)
             @ map (\<lambda>h. (True, HookDone h)) dn @ post"
        by blast
      then have "new = pre @ map (\<lambda>h. (True, HookCall h)) (on_connect_callbacks self)
             @ map (\<lambda>h. (True, HookDone h)) dn @ post"
        unfolding new_def by simp
      then show ?thesis by auto
    qed
    from p12 p3 show ?thesis by blast
  qed
  have c5: "\<forall>x\<in>set new. \<not> fst x" if na: "\<forall>cl. acq \<noteq> Inr (Some cl)"
  proof (cases acq)
    case (Inl e)
    then have "fst (call_aenter env self uri (emit self (Log INFO ''trying to connect'') w)) = Inl e"
      unfolding acq_def .
    from run_func_refused [OF this, of wr] show ?thesis
      unfolding new_def using nr by simp
  next
    case (Inr client)
    with na have "client = None" by (cases client) auto
    with Inr have "fst (call_aenter env self uri (emit self (Log INFO ''trying to connect'') w)) = Inr None"
      unfolding acq_def by simp
    from run_func_null [OF this, of wr] show ?thesis
      unfolding new_def using nr by simp
  qed
  have c6: "\<not> running (fst (snd y))
           \<and> (\<forall>x\<in>set (drop (length (trace w)) (trace (snd (snd y)))).
                 fst x = (snd x \<notin> {Log INFO ''trying to connect'', AEnter uri, AExit}
                          \<and> (\<forall>s. snd x \<noteq> Sleep s)))"
    if r: "run env self (uri, wr) w = Some y" for y
  proof (cases "retry_config self")
    case Disabled
    with r have y: "y = run_func env self (uri, wr) w"
      by (simp add: run_def apply_retry_def)
    show ?thesis
      unfolding y using n1 n2 n3 by simp
  next
    case (Policy p)
    with r have "tenacity_retry p (\<lambda>s. run_func env s (uri, wr)) 1 self w = Some y"
      by (simp add: run_def apply_retry_def)
    from tenacity_retry_flags [OF this nr] show ?thesis by auto
  qed
  from c1 c2 n3 c4 c5 c6 show ?thesis by blast
qed

theorem running_flag_span_witness:
  "\<not> running (fst docstring_client)
   \<and> fst (call_aenter env_drop_once (fst docstring_client) ''ws://x''
            (emit (fst docstring_client) (Log INFO ''trying to connect'') (snd docstring_client)))
       = Inr (Some (Conn ''ws://x''))
   \<and> (True, RemoteSubscribe [''guns'', ''germs''])
        \<in> set (drop (length (trace (snd docstring_client)))
                 (trace (snd (snd (run_func env_drop_once (fst docstring_client) (''ws://x'', True)
                                     (snd docstring_client))))))
   \<and> \<not> running (fst (snd (run_func env_drop_once (fst docstring_client) (''ws://x'', True)
                             (snd docstring_client))))
   \<and> (\<exists>y. run env_drop_once (fst docstring_client) (''ws://x'', True) (snd docstring_client) = Some y
          \<and> \<not> running (fst (snd y)))"
proof -
  let ?c = "fst docstring_client" and ?w = "snd docstring_client"
  have nr: "\<not> running ?c"
    by code_simp
  have acq: "fst (call_aenter env_drop_once ?c ''ws://x'' (emit ?c (Log INFO ''trying to connect'') ?w))
       = Inr (Some (Conn ''ws://x''))"
    by (simp add: call_aenter_def env_drop_once_def Let_def)
  have ts: "list_objs ?w (topics ?c) = [''guns'', ''germs'']"
    by code_simp
  have "run env_drop_once ?c (''ws://x'', True) ?w \<noteq> None"
    by code_simp
  then have ret: "\<exists>y. run env_drop_once ?c (''ws://x'', True) ?w = Some y"
    by blast
  note span = running_flag_span [OF nr, where env = env_drop_once and uri = "''ws://x''"
                                   and wr = True and w = ?w]
  from span acq ts have "(True, RemoteSubscribe [''guns'', ''germs''])
        \<in> set (drop (length (trace ?w))
                 (trace (snd (snd (run_func env_drop_once ?c (''ws://x'', True) ?w)))))"
    by auto
  moreover from span have "\<not> running (fst (snd (run_func env_drop_once ?c (''ws://x'', True) ?w)))"
    by blast
  moreover from span ret have "\<exists>y. run env_drop_once ?c (''ws://x'', True) ?w = Some y
          \<and> \<not> running (fst (snd y))"
    by blast
  ultimately show ?thesis using nr acq by blast
qed

subsection \<open>The handshake\<close>

text \<open>
  Claim C1. Take a client that is not running, any \<^verbatim>\<open>subscribe\<close> calls made on it, and a
  connection on which \<^verbatim>\<open>__aenter__\<close> yields a handle (the trace so far is arbitrary, so
  this is the first connection or any later one). If the topic list (what it held, then
  the subscribed topics in call order) is not empty, the attempt logs, acquires, logs
  again and then makes the remote subscribe call with that whole list; nothing of what
  follows is another remote subscribe call, and the hook calls are all in what follows.
\<close>

theorem batched_subscribe_once:
  fixes self0 :: client and subs :: "(topic \<times> coroutine) list" and w0 :: world
    and env :: env and uri :: string
  defines "self \<equiv> fst (subscribe_all self0 subs w0)"
      and "w \<equiv> snd (subscribe_all self0 subs w0)"
      and "ts \<equiv> list_objs w0 (topics self0) @ map fst subs"
  assumes nr: "\<not> running self0"
      and acq: "fst (call_aenter env self uri (emit self (Log INFO ''trying to connect'') w)) = Inr (Some cl)"
      and ne: "ts \<noteq> []"
  shows "\<exists>post. trace (snd (snd (run_func env self (uri, wr) w))) =
            trace w0 @ [(False, Log INFO ''trying to connect''), (False, AEnter uri),
                        (True, Log INFO ''connected to server''), (True, RemoteSubscribe ts)] @ post
          \<and> (\<forall>x\<in>set post. \<forall>ts'. snd x \<noteq> RemoteSubscribe ts')"
proof -
  obtain m where m: "self = self0\<lparr>callbacks := m\<rparr>"
    using subscribe_all_client [of self0 subs w0] unfolding self_def by blast
  have ts: "list_objs w (topics self) = ts"
    by (simp add: m w_def ts_def subscribe_all_list_objs [OF nr])
  have tr: "trace w = trace w0"
    by (simp add: w_def)
  have run: "\<not> running self"
    using nr by (simp add: m)
  from run_func_connected [OF acq, of wr] obtain hev left rd lg where
    shape: "snd (snd (run_func env self (uri, wr) w)) =
     w\<lparr>trace := trace w @ [(running self, Log INFO ''trying to connect''), (running self, AEnter uri),
                            (True, Log INFO ''connected to server'')]
        @ (if list_objs w (topics self) = [] then []
           else [(True, RemoteSubscribe (list_objs w (topics self)))])
        @ map (Pair True) hev @ map (Pair True) rd @ map (Pair True) lg @ [(False, AExit)],
       tasks := tasks w @ left\<rparr>"
    and rd: "set rd \<subseteq> {WaitOnReader}"
    and lg: "\<forall>x\<in>set lg. \<exists>lv m. x = Log lv m \<and> m \<noteq> ''trying to connect''"
    and hev: "\<forall>e\<in>set hev. is_hook_event e"
    by blast
  let ?post = "map (Pair True) hev @ map (Pair True) rd @ map (Pair True) lg @ [(False, AExit)]"
  have "trace (snd (snd (run_func env self (uri, wr) w))) =
            trace w0 @ [(False, Log INFO ''trying to connect''), (False, AEnter uri),
                        (True, Log INFO ''connected to server''), (True, RemoteSubscribe ts)] @ ?post"
    unfolding shape using ne run by (simp add: ts tr)
  moreover have "\<forall>x\<in>set ?post. \<forall>ts'. snd x \<noteq> RemoteSubscribe ts'"
    using rd lg hev by auto
  ultimately show ?thesis by blast
qed

theorem batched_subscribe_once_witness:
  "\<not> running (on_connect (init None None None []) ''on_connect_coroutine'')
   \<and> fst (call_aenter env_drop_once (fst docstring_client) ''ws://x''
            (emit (fst docstring_client) (Log INFO ''trying to connect'') (snd docstring_client)))
       = Inr (Some (Conn ''ws://x''))
   \<and> take 4 (trace (snd (snd (run_func env_drop_once (fst docstring_client) (''ws://x'', True)
                                   (snd docstring_client)))))
       = [(False, Log INFO ''trying to connect''), (False, AEnter ''ws://x''),
          (True, Log INFO ''connected to server''), (True, RemoteSubscribe [''guns'', ''germs''])]"
proof -
  let ?self0 = "on_connect (init None None None []) ''on_connect_coroutine''"
  let ?subs = "[(''guns'', ''guns_coroutine''), (''germs'', ''germs_coroutine'')]"
  have nr: "\<not> running ?self0"
    by (simp add: init_def on_connect_def)
  have acq: "fst (call_aenter env_drop_once (fst (subscribe_all ?self0 ?subs world0)) ''ws://x''
            (emit (fst (subscribe_all ?self0 ?subs world0)) (Log INFO ''trying to connect'')
               (snd (subscribe_all ?self0 ?subs world0))))
       = Inr (Some (Conn ''ws://x''))"
    by (simp add: call_aenter_def env_drop_once_def Let_def)
  have ne: "list_objs world0 (topics ?self0) @ map fst ?subs \<noteq> []"
    by simp
  have ts: "list_objs world0 (topics ?self0) @ map fst ?subs = [''guns'', ''germs'']"
    by (simp add: world0_def)
  from batched_subscribe_once [OF nr acq ne, of True] nr acq
  show ?thesis
    unfolding ts docstring_client_def [symmetric] by (auto simp: world0_def)
qed

text \<open>
  Claim C6, as stated, fails in its last part: \<^verbatim>\<open>asyncio.gather\<close> raises one exception
  and nothing aggregates the others. With two hooks that both raise as soon as they are
  run, both faults occur and the invocation raises the first alone.
\<close>

theorem hook_faults_not_aggregated_counterexample:
  "hook_faults env_hooks_fail (trace (snd two_hooks_client))
     (drop (length (trace (snd two_hooks_client)))
        (trace (snd (snd (run_func env_hooks_fail (fst two_hooks_client) (''ws://x'', True)
                            (snd two_hooks_client))))))
     = [Exception ''h1'', Exception ''h2'']
   \<and> fst (run_func env_hooks_fail (fst two_hooks_client) (''ws://x'', True) (snd two_hooks_client))
     = Inl (Exception ''h1'')"
  by code_simp

text \<open>
  Claim C6, amended. On a connection with a handle whose remote subscribe call (if there
  is one) does not fault, whatever the trace so far (first connection or reconnection),
  the hooks started are exactly the registered ones, in list order. If any hook faults
  during the handshake, the fault that is earliest in time is the one the handshake
  raises, and \<^verbatim>\<open>run\<close>'s body raises it in turn, as it does a connection fault; if none
  does, the handshake ends normally.
\<close>

theorem connect_hooks_first_fault:
  fixes self :: client and w :: world and env :: env and uri :: string and wr :: bool
  defines "self1 \<equiv> self\<lparr>running := True\<rparr>"
      and "w2 \<equiv> snd (call_aenter env self uri (emit self (Log INFO ''trying to connect'') w))"
      and "ts \<equiv> list_objs w (topics self)"
      and "new \<equiv> drop (length (trace w)) (trace (snd (snd (run_func env self (uri, wr) w))))"
  defines "w3 \<equiv> emit self1 (Log INFO ''connected to server'') w2"
  assumes acq: "fst (call_aenter env self uri (emit self (Log INFO ''trying to connect'') w)) = Inr (Some cl)"
      and sub: "ts \<noteq> [] \<Longrightarrow> fst (call_other_subscribe env self1 ts w3) = None"
  shows "hook_calls new = on_connect_callbacks self
       \<and> (\<forall>e es. hook_faults env (trace w) new = e # es \<longrightarrow>
              fst (on_connection env self1 cl w2) = Some e
            \<and> fst (run_func env self (uri, wr) w) = Inl e)
       \<and> (hook_faults env (trace w) new = [] \<longrightarrow> fst (on_connection env self1 cl w2) = None)"
proof -
  let ?hs = "on_connect_callbacks self"
  define pre where "pre = [(running self, Log INFO ''trying to connect''), (running self, AEnter uri),
               (True, Log INFO ''connected to server'')]
              @ (if ts = [] then [] else [(True, RemoteSubscribe ts)])"
  from run_func_handshake_ok [OF acq, of wr] sub obtain dn post where
    tr: "trace (snd (snd (run_func env self (uri, wr) w))) =
           trace w @ pre @ map (\<lambda>h. (True, HookCall h)) ?hs @ map (\<lambda>h. (True, HookDone h)) dn @ post"
    and post: "\<forall>x\<in>set post. \<not> is_hook_event (snd x)"
    and oc: "fst (on_connection env self1 cl w2) =
             earliest (hook_faults env (trace w @ pre)
               (map (\<lambda>h. (True, HookCall h)) ?hs @ map (\<lambda>h. (True, HookDone h)) dn))"
    and rf: "\<forall>e. fst (on_connection env self1 cl w2) = Some e
                \<longrightarrow> fst (run_func env self (uri, wr) w) = Inl e"
    unfolding self1_def w2_def ts_def w3_def pre_def by blast
  define hev where "hev = map (\<lambda>h. (True, HookCall h)) ?hs @ map (\<lambda>h. (True, HookDone h)) dn"
  have new: "new = pre @ hev @ post"
    unfolding new_def tr hev_def by simp
  have pre: "\<forall>x\<in>set pre. \<not> is_hook_event (snd x)"
    unfolding pre_def by simp
  have "hook_calls new = hook_calls hev"
    unfolding new
    by (simp add: hook_calls_append hook_calls_no_hooks [OF pre] hook_calls_no_hooks [OF post])
  then have hc: "hook_calls new = ?hs"
    unfolding hev_def by (simp add: hook_calls_append hook_calls_map hook_calls_done)
  have hf: "hook_faults env (trace w) new = hook_faults env (trace w @ pre) hev"
    unfolding new
    by (simp add: hook_faults_append hook_faults_no_hooks [OF pre] hook_faults_no_hooks [OF post])
  have oc': "fst (on_connection env self1 cl w2) = earliest (hook_faults env (trace w) new)"
    unfolding hf oc hev_def ..
  have "hook_faults env (trace w) new = e # es \<longrightarrow>
              fst (on_connection env self1 cl w2) = Some e
            \<and> fst (run_func env self (uri, wr) w) = Inl e" for e es
    using rf unfolding oc' by simp
  moreover have "hook_faults env (trace w) new = [] \<longrightarrow> fst (on_connection env self1 cl w2) = None"
    unfolding oc' by simp
  ultimately show ?thesis using hc by blast
qed

theorem connect_hooks_first_fault_witness:
  "fst (call_aenter env_h1_suspends (fst two_hooks_client) ''ws://x''
          (emit (fst two_hooks_client) (Log INFO ''trying to connect'') (snd two_hooks_client)))
     = Inr (Some (Conn ''ws://x''))
   \<and> list_objs (snd two_hooks_client) (topics (fst two_hooks_client)) = [''guns'']
   \<and> fst (call_other_subscribe env_h1_suspends ((fst two_hooks_client)\<lparr>running := True\<rparr>) [''guns'']
            (emit ((fst two_hooks_client)\<lparr>running := True\<rparr>) (Log INFO ''connected to server'')
               (snd (call_aenter env_h1_suspends (fst two_hooks_client) ''ws://x''
                       (emit (fst two_hooks_client) (Log INFO ''trying to connect'') (snd two_hooks_client))))))
       = None
   \<and> hook_calls (drop (length (trace (snd two_hooks_client)))
        (trace (snd (snd (run_func env_h1_suspends (fst two_hooks_client) (''ws://x'', True)
                            (snd two_hooks_client))))))
       = [''h1'', ''h2'']
   \<and> fst (run_func env_h1_suspends (fst two_hooks_client) (''ws://x'', True) (snd two_hooks_client))
       = Inl (Exception ''h2'')"
proof -
  let ?env = env_h1_suspends
  let ?c = "fst two_hooks_client" and ?w = "snd two_hooks_client"
  let ?c1 = "?c\<lparr>running := True\<rparr>"
  let ?w2 = "snd (call_aenter ?env ?c ''ws://x'' (emit ?c (Log INFO ''trying to connect'') ?w))"
  let ?w3 = "emit ?c1 (Log INFO ''connected to server'') ?w2"
  let ?new = "drop (length (trace ?w)) (trace (snd (snd (run_func ?env ?c (''ws://x'', True) ?w))))"
  have acq: "fst (call_aenter ?env ?c ''ws://x'' (emit ?c (Log INFO ''trying to connect'') ?w))
     = Inr (Some (Conn ''ws://x''))"
    by (simp add: call_aenter_def env_h1_suspends_def Let_def)
  have ts: "list_objs ?w (topics ?c) = [''guns'']"
    by code_simp
  have sub: "fst (call_other_subscribe ?env ?c1 [''guns''] ?w3) = None"
    by (simp add: call_other_subscribe_def env_h1_suspends_def Let_def)
  have hf: "hook_faults ?env (trace ?w) ?new = [Exception ''h2'']"
    by code_simp
  have hs: "on_connect_callbacks ?c = [''h1'', ''h2'']"
    by code_simp
  have "hook_calls ?new = on_connect_callbacks ?c
       \<and> (\<forall>e es. hook_faults ?env (trace ?w) ?new = e # es \<longrightarrow>
              fst (on_connection ?env ?c1 (Conn ''ws://x'') ?w2) = Some e
            \<and> fst (run_func ?env ?c (''ws://x'', True) ?w) = Inl e)
       \<and> (hook_faults ?env (trace ?w) ?new = [] \<longrightarrow>
              fst (on_connection ?env ?c1 (Conn ''ws://x'') ?w2) = None)"
    by (rule connect_hooks_first_fault [OF acq]) (simp add: ts sub)
  with acq ts sub hf hs show ?thesis by simp
qed

text \<open>
  The fault raised is the first in time, not the first in the list: when \<open>h1\<close> suspends
  and \<open>h2\<close> raises at once, or when both suspend and \<open>h2\<close> is the first to finish, the
  fault is that of \<open>h2\<close>, and \<open>h1\<close> is left running, with the flag already reset.
\<close>

lemma suspended_hook_left_running:
  "(case run_func env_h1_suspends (fst two_hooks_client) (''ws://x'', True) (snd two_hooks_client) of
      (r, c, w) \<Rightarrow> (r, running c, tasks w, drop 4 (trace w)))
    = (Inl (Exception ''h2''), False, [''h1''],
       [(True, HookCall ''h1''), (True, HookCall ''h2''),
        (True, Log CRITICAL ''RPC Uncaught Error''), (False, AExit)])"
  by code_simp

lemma later_hook_faults_first:
  "(case run_func env_hooks_late (fst two_hooks_client) (''ws://x'', True) (snd two_hooks_client) of
      (r, c, w) \<Rightarrow> (r, running c, tasks w, drop 4 (trace w)))
    = (Inl (Exception ''h2''), False, [''h1''],
       [(True, HookCall ''h1''), (True, HookCall ''h2''), (True, HookDone ''h2''),
        (True, Log CRITICAL ''RPC Uncaught Error''), (False, AExit)])"
  by code_simp

subsection \<open>The default topic list\<close>

text \<open>
  Claim C9. Two clients constructed without the \<^verbatim>\<open>topics\<close> argument hold the same list
  object: after \<^verbatim>\<open>subscribe(t, cb)\<close> on the first, the topic is at the end of the second
  client's topic list, and a connection of the second client sends it in its remote
  subscribe call.
\<close>

theorem default_topics_shared:
  fixes w :: world and env :: env and uri :: string
    and ma mb :: "string option" and ra rb :: "retry_cfg option" and ka kb :: "(string \<times> string) list"
    and t :: topic and cb :: coroutine
  defines "a \<equiv> init None ma ra ka"
      and "b \<equiv> init None mb rb kb"
  defines "w' \<equiv> snd (subscribe a t cb w)"
  assumes acq: "fst (call_aenter env b uri (emit b (Log INFO ''trying to connect'') w')) = Inr (Some cl)"
  shows "topics a = topics b
       \<and> list_objs w' (topics b) = list_objs w (topics b) @ [t]
       \<and> (True, RemoteSubscribe (list_objs w (topics b) @ [t]))
            \<in> set (trace (snd (snd (run_func env b (uri, wr) w'))))"
proof -
  have tp: "topics a = topics b"
    by (simp add: a_def b_def init_def)
  have lo: "list_objs w' (topics b) = list_objs w (topics b) @ [t]"
    by (simp add: w'_def a_def b_def init_def subscribe_def)
  from run_func_connected [OF acq, of wr] obtain hev left rd lg where
    "snd (snd (run_func env b (uri, wr) w')) =
     w'\<lparr>trace := trace w' @ [(running b, Log INFO ''trying to connect''), (running b, AEnter uri),
                            (True, Log INFO ''connected to server'')]
        @ (if list_objs w' (topics b) = [] then []
           else [(True, RemoteSubscribe (list_objs w' (topics b)))])
        @ map (Pair True) hev @ map (Pair True) rd @ map (Pair True) lg @ [(False, AExit)],
       tasks := tasks w' @ left\<rparr>"
    by blast
  then have "(True, RemoteSubscribe (list_objs w (topics b) @ [t]))
            \<in> set (trace (snd (snd (run_func env b (uri, wr) w'))))"
    by (simp add: lo)
  with tp lo show ?thesis by blast
qed

theorem default_topics_shared_witness:
  "fst (call_aenter env_drop_once (init None None None []) ''ws://b''
          (emit (init None None None []) (Log INFO ''trying to connect'')
             (snd (subscribe (init None None (Some Disabled) []) ''guns'' ''guns_coroutine'' world0))))
     = Inr (Some (Conn ''ws://b''))
   \<and> list_objs (snd (subscribe (init None None (Some Disabled) []) ''guns'' ''guns_coroutine'' world0))
        (topics (init None None None [])) = [''guns'']
   \<and> (True, RemoteSubscribe [''guns''])
        \<in> set (trace (snd (snd (run_func env_drop_once (init None None None []) (''ws://b'', False)
             (snd (subscribe (init None None (Some Disabled) []) ''guns'' ''guns_coroutine'' world0))))))"
proof -
  have acq: "fst (call_aenter env_drop_once (init None None None []) ''ws://b''
          (emit (init None None None []) (Log INFO ''trying to connect'')
             (snd (subscribe (init None None (Some Disabled) []) ''guns'' ''guns_coroutine'' world0))))
     = Inr (Some (Conn ''ws://b''))"
    by (simp add: call_aenter_def env_drop_once_def Let_def)
  have e: "list_objs world0 (topics (init None None None [])) = []"
    by (simp add: world0_def)
  from default_topics_shared [OF acq, of False] acq show ?thesis
    unfolding e by simp
qed

end
